theory Spec2Isabelle
  imports Main
begin

section \<open>Bytes and strings\<close>

text \<open>
  A Go \<^verbatim>\<open>string\<close> is a sequence of bytes; it is modelled as a \<^typ>\<open>string\<close>, a list of
  8-bit characters. Byte comparisons such as \<^verbatim>\<open>'a' <= c && c <= 'z'\<close> are made on the
  numeric value of the character.
\<close>

definition byte :: "char \<Rightarrow> nat" where
  "byte c = of_char c"

definition between :: "char \<Rightarrow> char \<Rightarrow> char \<Rightarrow> bool" where
  "between lo hi c = (byte lo \<le> byte c \<and> byte c \<le> byte hi)"

definition newline :: char where
  "newline = CHR 0x0A"

section \<open>Package \<^verbatim>\<open>net/url\<close>: escaping of one path segment\<close>

text \<open>
  \<^verbatim>\<open>url.PathEscape\<close> is \<^verbatim>\<open>escape(s, encodePathSegment)\<close> and \<^verbatim>\<open>url.PathUnescape\<close> is
  \<^verbatim>\<open>unescape(s, encodePathSegment)\<close>. The functions below are the standard library's
  \<^verbatim>\<open>shouldEscape\<close>, \<^verbatim>\<open>escape\<close>, \<^verbatim>\<open>ishex\<close>, \<^verbatim>\<open>unhex\<close> and \<^verbatim>\<open>unescape\<close> with the mode fixed
  to \<^verbatim>\<open>encodePathSegment\<close>: the branches for hosts, zones, query components and
  fragments are not taken in that mode and are left out.
\<close>

definition shouldEscape :: "char \<Rightarrow> bool" where
  "shouldEscape c =
     (if between CHR ''a'' CHR ''z'' c \<or> between CHR ''A'' CHR ''Z'' c \<or> between CHR ''0'' CHR ''9'' c
      then False
      else if c \<in> set ''-_.~'' then False
      else if c \<in> set ''$&+,/:;=?@''
      then c = CHR ''/'' \<or> c = CHR '';'' \<or> c = CHR '','' \<or> c = CHR ''?''
      else True)"

definition upperhex :: string where
  "upperhex = ''0123456789ABCDEF''"

fun escape :: "string \<Rightarrow> string" where
  "escape [] = []"
| "escape (c # s) =
     (if shouldEscape c
      then CHR ''%'' # upperhex ! (byte c div 16) # upperhex ! (byte c mod 16) # escape s
      else c # escape s)"

definition PathEscape :: "string \<Rightarrow> string" where
  "PathEscape s = escape s"

definition ishex :: "char \<Rightarrow> bool" where
  "ishex c = (between CHR ''0'' CHR ''9'' c \<or> between CHR ''a'' CHR ''f'' c \<or> between CHR ''A'' CHR ''F'' c)"

definition unhex :: "char \<Rightarrow> nat" where
  "unhex c =
     (if between CHR ''0'' CHR ''9'' c then byte c - byte CHR ''0''
      else if between CHR ''a'' CHR ''f'' c then byte c - byte CHR ''a'' + 10
      else if between CHR ''A'' CHR ''F'' c then byte c - byte CHR ''A'' + 10
      else 0)"

text \<open>
  Go errors are values. \<open>IllegalCompositeId id\<close> is
  \<^verbatim>\<open>fmt.Errorf("illegal compositeId %s encountered", id)\<close>, \<open>ImportFormat id\<close> is
  \<^verbatim>\<open>fmt.Errorf("id %s should be of format: managementEndpoint/{managementEndpoint}/keys/{keyId}/keyVersions/{keyVersionId}", id)\<close>
  and \<open>ManagementEndpointMissing\<close> is \<^verbatim>\<open>fmt.Errorf("management endpoint missing")\<close>.
  \<open>EscapeError\<close>, \<open>SyntaxError\<close> and \<open>TimeParseError\<close> are the errors of \<^verbatim>\<open>net/url\<close>,
  \<^verbatim>\<open>strconv\<close> and \<^verbatim>\<open>time\<close>, \<open>ServiceError\<close> is an error of the remote service or of its
  client, and \<open>NilDereference\<close> is the run-time panic of reading through a nil pointer.
\<close>

datatype error =
    EscapeError string
  | SyntaxError string string
  | TimeParseError string
  | IllegalCompositeId string
  | ImportFormat string
  | ManagementEndpointMissing
  | ServiceError string
  | NilDereference

text \<open>
  The first loop of \<^verbatim>\<open>unescape\<close> looks for a \<^verbatim>\<open>%\<close> that is not followed by two hex
  digits and returns \<^verbatim>\<open>EscapeError\<close> of the (at most three) bytes starting there.
\<close>

fun malformedEscape :: "string \<Rightarrow> string option" where
  "malformedEscape [] = None"
| "malformedEscape (c # s) =
     (if c = CHR ''%''
      then (case s of
              h1 # h2 # rest \<Rightarrow>
                if \<not> ishex h1 \<or> \<not> ishex h2 then Some (take 3 (c # s)) else malformedEscape rest
            | _ \<Rightarrow> Some (take 3 (c # s)))
      else malformedEscape s)"

text \<open>
  The second loop runs only on a checked string and replaces every \<^verbatim>\<open>%XY\<close> by the byte
  \<^verbatim>\<open>unhex(X)<<4 | unhex(Y)\<close>; the two nibbles do not overlap, so the bitwise or is a sum.
\<close>

fun decodeEscapes :: "string \<Rightarrow> string" where
  "decodeEscapes [] = []"
| "decodeEscapes (c # s) =
     (if c = CHR ''%''
      then (case s of
              h1 # h2 # rest \<Rightarrow> char_of (16 * unhex h1 + unhex h2) # decodeEscapes rest
            | _ \<Rightarrow> [])
      else c # decodeEscapes s)"

definition unescape :: "string \<Rightarrow> error + string" where
  "unescape s =
     (case malformedEscape s of
        Some bad \<Rightarrow> Inl (EscapeError bad)
      | None \<Rightarrow> Inr (decodeEscapes s))"

definition PathUnescape :: "string \<Rightarrow> error + string" where
  "PathUnescape s = unescape s"

section \<open>Package \<^verbatim>\<open>strings\<close>\<close>

text \<open>
  \<^verbatim>\<open>strings.Split(s, sep)\<close> for a separator of one byte: the pieces between the
  separators, so that a string with \<open>n\<close> separators has \<open>n + 1\<close> pieces and the empty
  string has the one piece \<^verbatim>\<open>""\<close>.
\<close>

fun Split :: "string \<Rightarrow> char \<Rightarrow> string list" where
  "Split [] sep = [[]]"
| "Split (c # s) sep =
     (if c = sep then [] # Split s sep
      else (case Split s sep of
              p # ps \<Rightarrow> (c # p) # ps
            | [] \<Rightarrow> [[c]]))"

section \<open>Package \<^verbatim>\<open>regexp\<close>\<close>

text \<open>
  The two patterns of the resource, \<^verbatim>\<open>keys/.*/keyVersions/.*\<close> and
  \<^verbatim>\<open>^managementEndpoint/(.*)/keys/(.*)/keyVersions/(.*)$\<close>, use literals, the greedy
  \<^verbatim>\<open>.*\<close>, capturing groups, and the anchors \<^verbatim>\<open>^\<close> and \<^verbatim>\<open>$\<close>. Without flags \<^verbatim>\<open>.\<close>
  matches every character but the newline, and the anchors match at the two ends of the
  text only. The literals are ASCII and the newline is ASCII, so matching bytes and
  matching UTF-8 runes agree on these patterns.
\<close>

datatype regex =
    Lit string
  | AnyStar
  | Cap regex
  | Cat regex regex
  | BeginText
  | EndText

text \<open>
  \<^verbatim>\<open>regexp\<close> returns the match a backtracking matcher finds first. \<open>run\<close> is that
  matcher: from the unread rest of the text and the groups closed so far it lists every
  way to match, in the order of preference (\<^verbatim>\<open>.*\<close> tries the longest run first).
\<close>

type_synonym mstate = "string \<times> string list"

fun run :: "string \<Rightarrow> regex \<Rightarrow> mstate \<Rightarrow> mstate list" where
  "run txt (Lit l) (t, caps) =
     (if take (length l) t = l then [(drop (length l) t, caps)] else [])"
| "run txt AnyStar (t, caps) =
     map (\<lambda>k. (drop k t, caps)) (rev [0..<Suc (length (takeWhile (\<lambda>c. c \<noteq> newline) t))])"
| "run txt (Cap r) (t, caps) =
     map (\<lambda>(t', caps'). (t', caps' @ [take (length t - length t') t])) (run txt r (t, caps))"
| "run txt (Cat r1 r2) st = concat (map (run txt r2) (run txt r1 st))"
| "run txt BeginText (t, caps) = (if length t = length txt then [(t, caps)] else [])"
| "run txt EndText (t, caps) = (if t = [] then [(t, caps)] else [])"

text \<open>A match may start at any position of the text; the leftmost start wins.\<close>

definition matchesAt :: "regex \<Rightarrow> string \<Rightarrow> nat \<Rightarrow> bool" where
  "matchesAt re txt k = (run txt re (drop k txt, []) \<noteq> [])"

definition MatchString :: "regex \<Rightarrow> string \<Rightarrow> bool" where
  "MatchString re txt = list_ex (matchesAt re txt) [0..<Suc (length txt)]"

text \<open>
  \<^verbatim>\<open>FindStringSubmatch\<close> returns the text of the leftmost match followed by the texts
  of its groups, and \<^verbatim>\<open>nil\<close> (the empty list) when there is no match.
\<close>

definition FindStringSubmatch :: "regex \<Rightarrow> string \<Rightarrow> string list" where
  "FindStringSubmatch re txt =
     (case find (matchesAt re txt) [0..<Suc (length txt)] of
        None \<Rightarrow> []
      | Some k \<Rightarrow>
          (case run txt re (drop k txt, []) of
             [] \<Rightarrow> []
           | (t', caps) # _ \<Rightarrow> take (length txt - k - length t') (drop k txt) # caps))"

definition keyVersionPattern :: regex where
  "keyVersionPattern = Cat (Lit ''keys/'') (Cat AnyStar (Cat (Lit ''/keyVersions/'') AnyStar))"

definition importPattern :: regex where
  "importPattern =
     Cat BeginText (Cat (Lit ''managementEndpoint/'') (Cat (Cap AnyStar)
       (Cat (Lit ''/keys/'') (Cat (Cap AnyStar)
         (Cat (Lit ''/keyVersions/'') (Cat (Cap AnyStar) EndText))))))"

section \<open>The composite identifier\<close>

definition getKeyVersionCompositeId :: "string \<Rightarrow> string \<Rightarrow> string" where
  "getKeyVersionCompositeId keyId keyVersionId =
     ''keys/'' @ PathEscape keyId @ ''/keyVersions/'' @ PathEscape keyVersionId"

text \<open>
  The error of \<^verbatim>\<open>url.PathUnescape\<close> is dropped by \<^verbatim>\<open>keyId, _ = url.PathUnescape(...)\<close>;
  on an error the function returns the empty string, which is what is assigned.
\<close>

definition dropError :: "error + string \<Rightarrow> string" where
  "dropError r = (case r of Inl _ \<Rightarrow> [] | Inr v \<Rightarrow> v)"

definition parseKeyVersionCompositeId :: "string \<Rightarrow> error + string \<times> string" where
  "parseKeyVersionCompositeId compositeId =
     (let parts = Split compositeId CHR ''/'';
          match = MatchString keyVersionPattern compositeId
      in if \<not> match \<or> length parts \<noteq> 4
         then Inl (IllegalCompositeId compositeId)
         else Inr (dropError (PathUnescape (parts ! 1)), dropError (PathUnescape (parts ! 3))))"

section \<open>Package \<^verbatim>\<open>strconv\<close> and the environment\<close>

definition ParseBool :: "string \<Rightarrow> error + bool" where
  "ParseBool str =
     (if str \<in> set [''1'', ''t'', ''T'', ''true'', ''TRUE'', ''True''] then Inr True
      else if str \<in> set [''0'', ''f'', ''F'', ''false'', ''FALSE'', ''False''] then Inr False
      else Inl (SyntaxError ''ParseBool'' str))"

text \<open>
  Modelled from the spec: \<^verbatim>\<open>getEnvSettingWithDefault\<close> is called by the resource but
  declared outside the sources. Section 6 describes the toggle as a named setting of the
  environment that falls back to its default when it is unset; the environment is a
  map from names to values.
\<close>

definition getEnvSettingWithDefault :: "(string \<rightharpoonup> string) \<Rightarrow> string \<Rightarrow> string \<Rightarrow> string" where
  "getEnvSettingWithDefault env s dv = (case env s of None \<Rightarrow> dv | Some v \<Rightarrow> v)"

section \<open>The local store: \<^verbatim>\<open>schema.ResourceData\<close>\<close>

text \<open>
  The resource reads and writes \<^verbatim>\<open>*schema.ResourceData\<close> through \<^verbatim>\<open>Id\<close>, \<^verbatim>\<open>SetId\<close>,
  \<^verbatim>\<open>GetOkExists\<close> and \<^verbatim>\<open>Set\<close> only, and every field of its schema is a string: the store
  is the identifier slot and a map from field names to values, with the query of
  section 6 that tells an unset field from an empty one. \<^verbatim>\<open>GetOkExists\<close> returns
  \<open>None\<close> where Go returns \<^verbatim>\<open>ok == false\<close>. \<^verbatim>\<open>Set\<close> takes a value or a pointer to one and
  stores the value; the resource ignores its error result.
\<close>

record ResourceData =
  rd_Id :: string
  rd_fields :: "string \<rightharpoonup> string"

definition GetOkExists :: "ResourceData \<Rightarrow> string \<Rightarrow> string option" where
  "GetOkExists d key = rd_fields d key"

definition Set :: "ResourceData \<Rightarrow> string \<Rightarrow> string \<Rightarrow> ResourceData" where
  "Set d key v = d\<lparr>rd_fields := (rd_fields d)(key \<mapsto> v)\<rparr>"

definition SetId :: "ResourceData \<Rightarrow> string \<Rightarrow> ResourceData" where
  "SetId d v = d\<lparr>rd_Id := v\<rparr>"

section \<open>The remote service: package \<^verbatim>\<open>keymanagement\<close>\<close>

text \<open>
  Modelled from the spec: the lifecycle states are constants of the vendored SDK, which
  is not among the sources; section 3 lists them. Their string values are unknown, so
  the conversion \<^verbatim>\<open>string(state)\<close> is a parameter \<open>str\<close> of the functions that use it.
\<close>

datatype KeyVersionLifecycleStateEnum =
    Creating | Enabling | Enabled | Disabled | Deleting | SchedulingDeletion
  | PendingDeletion | Deleted

text \<open>
  Modelled from the spec: \<^verbatim>\<open>KeyVersion\<close> is a struct of the vendored SDK. Section 3 lists
  what a remote key version holds, and the resource tests every field it reads against
  nil but the state: pointer fields are options, \<open>None\<close> for nil. \<open>'t\<close> is
  \<^verbatim>\<open>common.SDKTime\<close>, which the resource only parses, prints and passes on.
\<close>

record 't KeyVersion =
  CompartmentId :: "string option"
  Id :: "string option"
  KeyId :: "string option"
  LifecycleState :: KeyVersionLifecycleStateEnum
  TimeCreated :: "'t option"
  TimeOfDeletion :: "'t option"
  VaultId :: "string option"

text \<open>
  Modelled from the spec: \<^verbatim>\<open>getRetryPolicy\<close> is declared outside the sources. Section 5
  says only that a policy is requested for each call, so a policy is represented by
  the two arguments of the request for it.
\<close>

datatype RetryPolicy = RetryPolicyFor bool string

definition getRetryPolicy :: "bool \<Rightarrow> string \<Rightarrow> RetryPolicy" where
  "getRetryPolicy disableNotFoundRetries service = RetryPolicyFor disableNotFoundRetries service"

text \<open>
  Modelled from the spec: the requests and the client are types of the vendored SDK.
  Section 6 gives the operations of the remote service and their arguments; the fields
  below are the ones the resource assigns.
\<close>

record GetKeyVersionRequest =
  get_KeyId :: "string option"
  get_KeyVersionId :: "string option"
  get_RetryPolicy :: "RetryPolicy option"

record 't ScheduleKeyVersionDeletionRequest =
  del_KeyId :: "string option"
  del_KeyVersionId :: "string option"
  del_TimeOfDeletion :: "'t option"
  del_RetryPolicy :: "RetryPolicy option"

record KmsManagementClient =
  Host :: string

datatype 't RemoteCall =
    GetKeyVersionCall KmsManagementClient GetKeyVersionRequest
  | ScheduleKeyVersionDeletionCall KmsManagementClient "'t ScheduleKeyVersionDeletionRequest"

text \<open>
  Everything outside the process: the calls the remote service has received, in order,
  the answers it gives, and the lines written by \<^verbatim>\<open>log.Printf\<close>. A call through the
  client adds the request to the calls received and returns the answer of the service.
\<close>

record 't World =
  received :: "'t RemoteCall list"
  logged :: "string list"
  answerGet :: "KmsManagementClient \<Rightarrow> GetKeyVersionRequest \<Rightarrow> error + 't KeyVersion"
  answerScheduleDeletion ::
    "KmsManagementClient \<Rightarrow> 't ScheduleKeyVersionDeletionRequest \<Rightarrow> error option"

definition GetKeyVersion ::
  "KmsManagementClient \<Rightarrow> GetKeyVersionRequest \<Rightarrow> 't World \<Rightarrow> (error + 't KeyVersion) \<times> 't World" where
  "GetKeyVersion client request w =
     (answerGet w client request,
      w\<lparr>received := received w @ [GetKeyVersionCall client request]\<rparr>)"

definition ScheduleKeyVersionDeletion ::
  "KmsManagementClient \<Rightarrow> 't ScheduleKeyVersionDeletionRequest \<Rightarrow> 't World
     \<Rightarrow> error option \<times> 't World" where
  "ScheduleKeyVersionDeletion client request w =
     (answerScheduleDeletion w client request,
      w\<lparr>received := received w @ [ScheduleKeyVersionDeletionCall client request]\<rparr>)"

definition Printf :: "string \<Rightarrow> 't World \<Rightarrow> 't World" where
  "Printf line w = w\<lparr>logged := logged w @ [line]\<rparr>"

section \<open>The key-version synchronizer\<close>

text \<open>
  \<^verbatim>\<open>KmsKeyVersionResourceCrud\<close>: \<open>D\<close> is the field of the embedded \<^verbatim>\<open>BaseCrud\<close>. The three
  entry points set \<open>D\<close> and \<open>Client\<close> before they hand the value on, so both are always
  present; \<open>Res\<close> is nil until a call has answered.

  A method takes the synchronizer and the world and returns its error (\<open>None\<close> for
  \<^verbatim>\<open>nil\<close>), the synchronizer and the world as it leaves them. \<open>D\<close> is a pointer in
  Go; here the caller reads the store back from the synchronizer that is returned.
\<close>

record 't KmsKeyVersionResourceCrud =
  D :: ResourceData
  Client :: KmsManagementClient
  Res :: "'t KeyVersion option"
  DisableNotFoundRetries :: bool

type_synonym 't outcome = "error option \<times> 't KmsKeyVersionResourceCrud \<times> 't World"

definition ID :: "'t KmsKeyVersionResourceCrud \<Rightarrow> error + string" where
  "ID s =
     (case Res s of
        None \<Rightarrow> Inl NilDereference
      | Some res \<Rightarrow>
          (case KeyId res of
             None \<Rightarrow> Inl NilDereference
           | Some keyId \<Rightarrow>
               (case Id res of
                  None \<Rightarrow> Inl NilDereference
                | Some versionId \<Rightarrow> Inr (getKeyVersionCompositeId keyId versionId))))"

definition CreatedPending ::
  "(KeyVersionLifecycleStateEnum \<Rightarrow> string) \<Rightarrow> 't KmsKeyVersionResourceCrud \<Rightarrow> string list" where
  "CreatedPending str s = [str Creating, str Enabling]"

definition CreatedTarget ::
  "(KeyVersionLifecycleStateEnum \<Rightarrow> string) \<Rightarrow> 't KmsKeyVersionResourceCrud \<Rightarrow> string list" where
  "CreatedTarget str s = [str Enabled]"

definition DeletedPending ::
  "(KeyVersionLifecycleStateEnum \<Rightarrow> string) \<Rightarrow> 't KmsKeyVersionResourceCrud \<Rightarrow> string list" where
  "DeletedPending str s = [str Disabled, str Deleting, str SchedulingDeletion]"

definition DeletedTarget ::
  "(KeyVersionLifecycleStateEnum \<Rightarrow> string) \<Rightarrow> 't KmsKeyVersionResourceCrud \<Rightarrow> string list" where
  "DeletedTarget str s = [str Deleted, str PendingDeletion]"

definition Get :: "'t KmsKeyVersionResourceCrud \<Rightarrow> 't World \<Rightarrow> 't outcome" where
  "Get s w =
     (case parseKeyVersionCompositeId (rd_Id (D s)) of
        Inl err \<Rightarrow>
          (Some err, s, Printf (''[WARN] Get() unable to parse current ID: '' @ rd_Id (D s)) w)
      | Inr (keyId, keyVersionId) \<Rightarrow>
          (let request = \<lparr>get_KeyId = Some keyId, get_KeyVersionId = Some keyVersionId,
                 get_RetryPolicy = Some (getRetryPolicy (DisableNotFoundRetries s) ''kms'')\<rparr>
           in case GetKeyVersion (Client s) request w of
                (Inl err, w') \<Rightarrow> (Some err, s, w')
              | (Inr response, w') \<Rightarrow> (None, s\<lparr>Res := Some response\<rparr>, w')))"

text \<open>
  \<^verbatim>\<open>time.Parse\<close> is a parameter, called with the layout \<^verbatim>\<open>time.RFC3339Nano\<close>.
\<close>

definition RFC3339Nano :: string where
  "RFC3339Nano = ''2006-01-02T15:04:05.999999999Z07:00''"

definition Delete ::
  "(string \<Rightarrow> string \<Rightarrow> error + 't) \<Rightarrow> 't KmsKeyVersionResourceCrud \<Rightarrow> 't World \<Rightarrow> 't outcome" where
  "Delete time_Parse s w =
     (case parseKeyVersionCompositeId (rd_Id (D s)) of
        Inl err \<Rightarrow>
          (Some err, s, Printf (''[WARN] Get() unable to parse current ID: '' @ rd_Id (D s)) w)
      | Inr (keyId, keyVersionId) \<Rightarrow>
          (let request = \<lparr>del_KeyId = Some keyId, del_KeyVersionId = Some keyVersionId,
                 del_TimeOfDeletion = None, del_RetryPolicy = None\<rparr>;
               send = (\<lambda>request.
                 case ScheduleKeyVersionDeletion (Client s)
                        (request\<lparr>del_RetryPolicy :=
                           Some (getRetryPolicy (DisableNotFoundRetries s) ''kms'')\<rparr>) w of
                   (err, w') \<Rightarrow> (err, s, w'))
           in case GetOkExists (D s) ''time_of_deletion'' of
                Some timeOfDeletion \<Rightarrow>
                  (case time_Parse RFC3339Nano timeOfDeletion of
                     Inl err \<Rightarrow> (Some err, s, w)
                   | Inr tmpTime \<Rightarrow> send (request\<lparr>del_TimeOfDeletion := Some tmpTime\<rparr>))
              | None \<Rightarrow> send request))"

text \<open>
  \<^verbatim>\<open>SetData\<close> writes through \<open>D\<close> field by field. \<open>str\<close> is \<^verbatim>\<open>string(state)\<close> and
  \<open>time_String\<close> is \<^verbatim>\<open>SDKTime.String\<close>. Reading a field of a nil \<open>Res\<close> panics, after
  the identifier has been handled.
\<close>

definition setIfPresent :: "string \<Rightarrow> string option \<Rightarrow> ResourceData \<Rightarrow> ResourceData" where
  "setIfPresent key v d = (case v of None \<Rightarrow> d | Some x \<Rightarrow> Set d key x)"

definition SetData ::
  "(KeyVersionLifecycleStateEnum \<Rightarrow> string) \<Rightarrow> ('t \<Rightarrow> string)
     \<Rightarrow> 't KmsKeyVersionResourceCrud \<Rightarrow> 't World \<Rightarrow> 't outcome" where
  "SetData str time_String s w =
     (let (d0, w0) =
            (case parseKeyVersionCompositeId (rd_Id (D s)) of
               Inr (keyId, keyVersionId) \<Rightarrow>
                 (Set (Set (D s) ''key_id'' keyId) ''key_version_id'' keyVersionId, w)
             | Inl err \<Rightarrow>
                 (D s, Printf (''[WARN] SetData() unable to parse current ID: '' @ rd_Id (D s)) w))
      in case Res s of
           None \<Rightarrow> (Some NilDereference, s\<lparr>D := d0\<rparr>, w0)
         | Some res \<Rightarrow>
             (let d1 = setIfPresent ''compartment_id'' (CompartmentId res) d0;
                  d2 = setIfPresent ''key_id'' (KeyId res) d1;
                  d3 = Set d2 ''state'' (str (LifecycleState res));
                  d4 = setIfPresent ''time_created'' (map_option time_String (TimeCreated res)) d3;
                  d5 = setIfPresent ''time_of_deletion''
                         (map_option time_String (TimeOfDeletion res)) d4;
                  d6 = setIfPresent ''vault_id'' (VaultId res) d5
              in (None, s\<lparr>D := d6\<rparr>, w0)))"

section \<open>The entry points\<close>

text \<open>
  The entry points get the client of an endpoint from the provider
  (\<^verbatim>\<open>m.(*OracleClients).KmsManagementClient\<close>) and hand the synchronizer to
  \<^verbatim>\<open>ReadResource\<close> or \<^verbatim>\<open>DeleteResource\<close>. These three are declared outside the
  sources and are parameters here. The new synchronizer is
  \<^verbatim>\<open>&KmsKeyVersionResourceCrud{}\<close> with \<open>D\<close> and \<open>Client\<close> assigned.
\<close>

definition newSync :: "ResourceData \<Rightarrow> KmsManagementClient \<Rightarrow> 't KmsKeyVersionResourceCrud" where
  "newSync d client = \<lparr>D = d, Client = client, Res = None, DisableNotFoundRetries = False\<rparr>"

type_synonym 't entry_result = "error option \<times> ResourceData \<times> 't World"

definition readKmsKeyVersion ::
  "(string \<Rightarrow> error + KmsManagementClient)
     \<Rightarrow> ('t KmsKeyVersionResourceCrud \<Rightarrow> 't World \<Rightarrow> 't outcome)
     \<Rightarrow> ResourceData \<Rightarrow> 't World \<Rightarrow> 't entry_result" where
  "readKmsKeyVersion clientFor ReadResource d w =
     (let continue = (\<lambda>d endpoint.
            case clientFor endpoint of
              Inl err \<Rightarrow> (Some err, d, w)
            | Inr client \<Rightarrow>
                (case ReadResource (newSync d client) w of (err, s', w') \<Rightarrow> (err, D s', w')))
      in case GetOkExists d ''management_endpoint'' of
           Some endpoint \<Rightarrow> continue d endpoint
         | None \<Rightarrow>
             (let id' = rd_Id d;
                  tokens = FindStringSubmatch importPattern id'
              in if length tokens = 4
                 then (let endpoint = tokens ! 1;
                           d1 = Set d ''management_endpoint'' endpoint;
                           d2 = Set d1 ''key_id'' (tokens ! 2);
                           d3 = Set d2 ''key_version_id'' (tokens ! 3);
                           d4 = SetId d3 (getKeyVersionCompositeId (tokens ! 2) (tokens ! 3))
                       in continue d4 endpoint)
                 else (Some (ImportFormat id'), d, w)))"

definition deleteKmsKeyVersion ::
  "(string \<rightharpoonup> string)
     \<Rightarrow> (string \<Rightarrow> error + KmsManagementClient)
     \<Rightarrow> (ResourceData \<Rightarrow> 't KmsKeyVersionResourceCrud \<Rightarrow> 't World \<Rightarrow> 't outcome)
     \<Rightarrow> ResourceData \<Rightarrow> 't World \<Rightarrow> 't entry_result" where
  "deleteKmsKeyVersion env clientFor DeleteResource d w =
     (let disableKmsVersionDeletion =
            (case ParseBool (getEnvSettingWithDefault env ''disable_kms_version_delete'' ''false'') of
               Inl _ \<Rightarrow> False
             | Inr b \<Rightarrow> b)
      in if disableKmsVersionDeletion then (None, d, w)
         else (case GetOkExists d ''management_endpoint'' of
                 None \<Rightarrow> (Some ManagementEndpointMissing, d, w)
               | Some endpoint \<Rightarrow>
                   (case clientFor endpoint of
                      Inl err \<Rightarrow> (Some err, d, w)
                    | Inr client \<Rightarrow>
                        (case DeleteResource d (newSync d client) w of
                           (err, s', w') \<Rightarrow> (err, D s', w')))))"

section \<open>Escaping and unescaping\<close>

lemma byte_lt_256: "byte c < 256"
proof -
  have "byte c mod 256 = byte c"
    unfolding byte_def by (rule of_char_mod_256)
  then show ?thesis
    by (metis mod_less_divisor zero_less_numeral)
qed

lemma byte_nibbles: "byte c div 16 < 16" "byte c mod 16 < 16"
  using byte_lt_256 [of c] by auto

lemma char_of_nibbles: "char_of (16 * (byte c div 16) + byte c mod 16) = c"
  by (simp add: byte_def)

lemma hex_nibbles:
  "\<forall>n \<in> set [0..<16]. ishex (upperhex ! n) \<and> unhex (upperhex ! n) = n
      \<and> upperhex ! n \<noteq> CHR ''/'' \<and> upperhex ! n \<noteq> newline"
  by code_simp

lemma hex_nibble:
  assumes "n < 16"
  shows "ishex (upperhex ! n)" and "unhex (upperhex ! n) = n"
    and "upperhex ! n \<noteq> CHR ''/''" and "upperhex ! n \<noteq> newline"
  using hex_nibbles assms by auto

lemma shouldEscape_percent: "shouldEscape CHR ''%''"
  by code_simp

lemma shouldEscape_slash: "shouldEscape CHR ''/''"
  by code_simp

lemma shouldEscape_newline: "shouldEscape newline"
  by code_simp

lemma malformedEscape_escape: "malformedEscape (escape s) = None"
  by (induction s) (auto simp: hex_nibble byte_nibbles shouldEscape_percent)

lemma decode_one:
  "char_of (16 * unhex (upperhex ! (byte c div 16)) + unhex (upperhex ! (byte c mod 16))) = c"
  by (simp only: hex_nibble(2) byte_nibbles char_of_nibbles)

lemma decodeEscapes_escape: "decodeEscapes (escape s) = s"
proof (induction s)
  case Nil
  show ?case by simp
next
  case (Cons a s)
  show ?case
  proof (cases "shouldEscape a")
    case True
    then show ?thesis by (simp add: Cons.IH decode_one)
  next
    case False
    then have "a \<noteq> CHR ''%''" using shouldEscape_percent by auto
    with False show ?thesis by (simp add: Cons.IH)
  qed
qed

lemma PathUnescape_PathEscape: "PathUnescape (PathEscape s) = Inr s"
  by (simp add: PathUnescape_def PathEscape_def unescape_def malformedEscape_escape
      decodeEscapes_escape)

text \<open>What an escaped string is made of: \<^verbatim>\<open>%\<close>, hex digits, and bytes that need no escape.\<close>

lemma escape_chars:
  "c \<in> set (escape s) \<Longrightarrow> c = CHR ''%'' \<or> (\<exists>n<16. c = upperhex ! n) \<or> \<not> shouldEscape c"
proof (induction s)
  case Nil
  then show ?case by simp
next
  case (Cons a s)
  show ?case
  proof (cases "c \<in> set (escape s)")
    case True
    then show ?thesis by (rule Cons.IH)
  next
    case False
    with Cons.prems have "c = CHR ''%'' \<or> c = upperhex ! (byte a div 16)
        \<or> c = upperhex ! (byte a mod 16) \<or> (c = a \<and> \<not> shouldEscape a)"
      by (auto split: if_splits)
    then show ?thesis using byte_nibbles [of a] by blast
  qed
qed

lemma percent_not_special: "CHR ''%'' \<noteq> CHR ''/''" "CHR ''%'' \<noteq> newline"
  by (simp_all add: newline_def)

lemma escape_no_slash: "CHR ''/'' \<notin> set (escape s)"
  using escape_chars [of "CHR ''/''" s] hex_nibble(3) shouldEscape_slash percent_not_special(1)
  by metis

lemma escape_no_newline: "newline \<notin> set (escape s)"
  using escape_chars [of newline s] hex_nibble(4) shouldEscape_newline percent_not_special(2)
  by metis

section \<open>Splitting\<close>

lemma Split_nonempty: "Split s sep \<noteq> []"
  by (induction s) (auto split: list.splits)

lemma Split_no_sep: "sep \<notin> set x \<Longrightarrow> Split x sep = [x]"
  by (induction x) auto

lemma Split_append: "sep \<notin> set x \<Longrightarrow> Split (x @ sep # r) sep = x # Split r sep"
  by (induction x) auto

lemma length_Split: "length (Split s sep) = Suc (count_list s sep)"
  by (induction s) (auto split: list.splits simp: Split_nonempty)

lemma Split_four:
  assumes "CHR ''/'' \<notin> set p" "CHR ''/'' \<notin> set x" "CHR ''/'' \<notin> set y"
  shows "Split (p @ ''keys/'' @ x @ ''/keyVersions/'' @ y) CHR ''/''
           = [p @ ''keys'', x, ''keyVersions'', y]"
proof -
  have k: "CHR ''/'' \<notin> set (p @ ''keys'')" "CHR ''/'' \<notin> set ''keyVersions''"
    using assms by simp_all
  have "p @ ''keys/'' @ x @ ''/keyVersions/'' @ y
      = (p @ ''keys'') @ CHR ''/'' # (x @ CHR ''/'' # (''keyVersions'' @ CHR ''/'' # y))"
    by simp
  then show ?thesis
    by (simp only: Split_append [OF k(1)] Split_append [OF assms(2)] Split_append [OF k(2)]
        Split_no_sep [OF assms(3)])
qed

section \<open>What the matcher accepts\<close>

lemma nonempty_iff_member: "xs \<noteq> [] \<longleftrightarrow> (\<exists>y. y \<in> set xs)"
  by (cases xs) auto

lemma run_Lit_iff: "(t', c') \<in> set (run txt (Lit l) (t, c)) \<longleftrightarrow> c' = c \<and> t = l @ t'"
proof -
  have "take (length l) t = l \<and> t' = drop (length l) t \<longleftrightarrow> t = l @ t'"
    by (metis append_eq_conv_conj)
  then show ?thesis by auto
qed

lemma run_AnyStar_set:
  "set (run txt AnyStar (t, c))
     = (\<lambda>k. (drop k t, c)) ` {..length (takeWhile (\<lambda>c. c \<noteq> newline) t)}"
  by (simp del: upt_Suc add: atLeast0LessThan lessThan_Suc_atMost)

lemma take_within_takeWhile:
  assumes "k \<le> length (takeWhile P t)"
  shows "set (take k t) \<subseteq> {c. P c}"
proof -
  have "take k (takeWhile P t @ dropWhile P t) = take k (takeWhile P t)"
    using assms by (simp del: takeWhile_dropWhile_id)
  then have "take k t = take k (takeWhile P t)"
    by (simp only: takeWhile_dropWhile_id)
  then have "set (take k t) \<subseteq> set (takeWhile P t)" by (metis set_take_subset)
  then show ?thesis by (auto dest: set_takeWhileD)
qed

lemma run_AnyStar_iff:
  "(t', c') \<in> set (run txt AnyStar (t, c))
     \<longleftrightarrow> c' = c \<and> (\<exists>x. t = x @ t' \<and> newline \<notin> set x)"
proof
  assume "(t', c') \<in> set (run txt AnyStar (t, c))"
  then obtain k where k: "k \<le> length (takeWhile (\<lambda>c. c \<noteq> newline) t)"
    and t': "t' = drop k t" and c: "c' = c"
    unfolding run_AnyStar_set by auto
  have "newline \<notin> set (take k t)"
    using take_within_takeWhile [OF k] by auto
  moreover have "t = take k t @ t'" by (simp add: t')
  ultimately show "c' = c \<and> (\<exists>x. t = x @ t' \<and> newline \<notin> set x)"
    using c by blast
next
  assume "c' = c \<and> (\<exists>x. t = x @ t' \<and> newline \<notin> set x)"
  then obtain x where c: "c' = c" and t: "t = x @ t'" and x: "newline \<notin> set x" by blast
  have "takeWhile (\<lambda>c. c \<noteq> newline) t = x @ takeWhile (\<lambda>c. c \<noteq> newline) t'"
    unfolding t using x by (intro takeWhile_append2) auto
  then have "length x \<le> length (takeWhile (\<lambda>c. c \<noteq> newline) t)" by simp
  moreover have "t' = drop (length x) t" by (simp add: t)
  ultimately show "(t', c') \<in> set (run txt AnyStar (t, c))"
    unfolding run_AnyStar_set using c by blast
qed

lemma run_Cat_iff:
  "(t'', c'') \<in> set (run txt (Cat a b) (t, c)) \<longleftrightarrow>
     (\<exists>t' c'. (t', c') \<in> set (run txt a (t, c)) \<and> (t'', c'') \<in> set (run txt b (t', c')))"
  by auto

lemma run_Cap_iff:
  "(t', c') \<in> set (run txt (Cap r) (t, c)) \<longleftrightarrow>
     (\<exists>c1. (t', c1) \<in> set (run txt r (t, c)) \<and> c' = c1 @ [take (length t - length t') t])"
  by (force simp: image_iff)

lemma run_BeginText_iff:
  "(t', c') \<in> set (run txt BeginText (t, c)) \<longleftrightarrow> t' = t \<and> c' = c \<and> length t = length txt"
  by auto

lemma run_EndText_iff:
  "(t', c') \<in> set (run txt EndText (t, c)) \<longleftrightarrow> t' = [] \<and> c' = c \<and> t = []"
  by auto

lemma matchesAt_keyVersionPattern:
  "matchesAt keyVersionPattern txt k \<longleftrightarrow>
     (\<exists>x y. drop k txt = ''keys/'' @ x @ ''/keyVersions/'' @ y \<and> newline \<notin> set x)"
proof -
  have unfold: "matchesAt keyVersionPattern txt k \<longleftrightarrow>
      (\<exists>t' c' t1 t2 t3. drop k txt = ''keys/'' @ t1
        \<and> (\<exists>x. t1 = x @ t2 \<and> newline \<notin> set x) \<and> t2 = ''/keyVersions/'' @ t3
        \<and> c' = [] \<and> (\<exists>y. t3 = y @ t' \<and> newline \<notin> set y))"
    unfolding matchesAt_def nonempty_iff_member keyVersionPattern_def
    by (simp only: split_paired_Ex run_Cat_iff run_Lit_iff run_AnyStar_iff) blast
  show ?thesis
  proof
    assume "matchesAt keyVersionPattern txt k"
    with unfold
    show "\<exists>x y. drop k txt = ''keys/'' @ x @ ''/keyVersions/'' @ y \<and> newline \<notin> set x"
      by blast
  next
    assume "\<exists>x y. drop k txt = ''keys/'' @ x @ ''/keyVersions/'' @ y \<and> newline \<notin> set x"
    then obtain x y
      where "drop k txt = ''keys/'' @ x @ ''/keyVersions/'' @ y" "newline \<notin> set x"
      by blast
    then have "drop k txt = ''keys/'' @ (x @ ''/keyVersions/'' @ y)
        \<and> (\<exists>x'. x @ ''/keyVersions/'' @ y = x' @ (''/keyVersions/'' @ y) \<and> newline \<notin> set x')
        \<and> ''/keyVersions/'' @ y = ''/keyVersions/'' @ y
        \<and> ([]::string list) = [] \<and> (\<exists>y'. y = y' @ y \<and> newline \<notin> set y')"
      by (intro conjI exI [of _ x] exI [of _ "[]"]) simp_all
    then have "\<exists>t' c' t1 t2 t3. drop k txt = ''keys/'' @ t1
        \<and> (\<exists>x. t1 = x @ t2 \<and> newline \<notin> set x) \<and> t2 = ''/keyVersions/'' @ t3
        \<and> c' = ([]::string list) \<and> (\<exists>y. t3 = y @ t' \<and> newline \<notin> set y)"
      by blast
    with unfold show "matchesAt keyVersionPattern txt k" by blast
  qed
qed

lemma MatchString_iff_matchesAt:
  "MatchString re txt \<longleftrightarrow> (\<exists>k\<le>length txt. matchesAt re txt k)"
  unfolding MatchString_def list_ex_iff by (auto simp del: upt_Suc simp: less_Suc_eq_le)

lemma drop_eq_iff_split: "(\<exists>k\<le>length txt. drop k txt = r) \<longleftrightarrow> (\<exists>p. txt = p @ r)"
proof
  assume "\<exists>k\<le>length txt. drop k txt = r"
  then show "\<exists>p. txt = p @ r" by (metis append_take_drop_id)
next
  assume "\<exists>p. txt = p @ r"
  then obtain p where "txt = p @ r" by blast
  then have "length p \<le> length txt \<and> drop (length p) txt = r" by simp
  then show "\<exists>k\<le>length txt. drop k txt = r" by blast
qed

text \<open>
  The pattern of the composite identifier is not anchored: it matches a text that holds
  \<^verbatim>\<open>keys/\<close>, a run without a newline, \<^verbatim>\<open>/keyVersions/\<close>, anywhere.
\<close>

lemma MatchString_keyVersionPattern:
  "MatchString keyVersionPattern txt \<longleftrightarrow>
     (\<exists>p x y. txt = p @ ''keys/'' @ x @ ''/keyVersions/'' @ y \<and> newline \<notin> set x)"
proof -
  have "MatchString keyVersionPattern txt \<longleftrightarrow>
      (\<exists>x y. newline \<notin> set x
         \<and> (\<exists>k\<le>length txt. drop k txt = ''keys/'' @ x @ ''/keyVersions/'' @ y))"
    unfolding MatchString_iff_matchesAt matchesAt_keyVersionPattern by blast
  then show ?thesis unfolding drop_eq_iff_split by blast
qed

section \<open>The match that is found first\<close>

text \<open>
  A group \<^verbatim>\<open>(.*)\<close> tries its longest run first and gives back one character at a time,
  so the first match of what follows it, from the longest run on, is the match reported.
\<close>

lemma length_takeWhile_all:
  "length (takeWhile P xs) = length xs \<longleftrightarrow> (\<forall>x\<in>set xs. P x)"
proof
  assume len: "length (takeWhile P xs) = length xs"
  have "length (takeWhile P xs) + length (dropWhile P xs) = length xs"
    by (metis length_append takeWhile_dropWhile_id)
  with len have "dropWhile P xs = []" by simp
  then show "\<forall>x\<in>set xs. P x" by (simp add: dropWhile_eq_Nil_conv)
next
  assume "\<forall>x\<in>set xs. P x"
  then show "length (takeWhile P xs) = length xs" by (simp add: takeWhile_eq_all_conv [THEN iffD2])
qed

lemma run_capture_star:
  "run txt (Cat (Cap AnyStar) R) (t, c)
     = concat (map (\<lambda>k. run txt R (drop k t, c @ [take k t]))
         (rev [0..<Suc (length (takeWhile (\<lambda>c. c \<noteq> newline) t))]))"
proof -
  let ?n = "length (takeWhile (\<lambda>c. c \<noteq> newline) t)"
  have n: "?n \<le> length t" by (rule length_takeWhile_le)
  have "run txt (Cap AnyStar) (t, c)
      = map (\<lambda>k. (drop k t, c @ [take (length t - length (drop k t)) t])) (rev [0..<Suc ?n])"
    by (simp only: run.simps map_map comp_def prod.case)
  also have "\<dots> = map (\<lambda>k. (drop k t, c @ [take k t])) (rev [0..<Suc ?n])"
  proof (rule map_cong [OF refl])
    fix k assume "k \<in> set (rev [0..<Suc ?n])"
    then have "k \<le> length t" using n by (simp del: upt_Suc)
    then show "(drop k t, c @ [take (length t - length (drop k t)) t]) = (drop k t, c @ [take k t])"
      by simp
  qed
  finally have states: "run txt (Cap AnyStar) (t, c)
      = map (\<lambda>k. (drop k t, c @ [take k t])) (rev [0..<Suc ?n])" .
  have "run txt (Cat (Cap AnyStar) R) (t, c) = concat (map (run txt R) (run txt (Cap AnyStar) (t, c)))"
    by (simp only: run.simps)
  then show ?thesis
    by (simp only: states map_map comp_def)
qed

lemma concat_from_top:
  assumes "k0 \<le> n" and "\<forall>k. k0 < k \<and> k \<le> n \<longrightarrow> g k = []"
  shows "concat (map g (rev [0..<Suc n])) = g k0 @ concat (map g (rev [0..<k0]))"
  using assms
proof (induction n)
  case 0
  then show ?case by simp
next
  case (Suc n)
  show ?case
  proof (cases "k0 = Suc n")
    case True
    then show ?thesis by simp
  next
    case False
    with Suc.prems have "k0 \<le> n" and "g (Suc n) = []" by auto
    moreover from Suc.prems have "\<forall>k. k0 < k \<and> k \<le> n \<longrightarrow> g k = []" by auto
    ultimately show ?thesis using Suc.IH by simp
  qed
qed

lemma concat_all_empty:
  assumes "\<forall>k<n. g k = []"
  shows "concat (map g (rev [0..<n])) = []"
  using assms by (induction n) auto

text \<open>The last group, \<^verbatim>\<open>(.*)$\<close>: it takes the whole rest, which must hold no newline.\<close>

lemma run_last_group:
  "run txt (Cat (Cap AnyStar) EndText) (v, c) = (if newline \<in> set v then [] else [([], c @ [v])])"
proof (cases "newline \<in> set v")
  case True
  let ?n = "length (takeWhile (\<lambda>c. c \<noteq> newline) v)"
  have "?n \<noteq> length v"
    using True length_takeWhile_all [of "\<lambda>c. c \<noteq> newline" v] by blast
  then have "?n < length v"
    using length_takeWhile_le [of "\<lambda>c. c \<noteq> newline" v] by simp
  then have "\<forall>k<Suc ?n. run txt EndText (drop k v, c @ [take k v]) = []" by auto
  then show ?thesis
    unfolding run_capture_star using True by (simp only: concat_all_empty if_True)
next
  case False
  let ?n = "length (takeWhile (\<lambda>c. c \<noteq> newline) v)"
  have n: "?n = length v"
    using False length_takeWhile_all [of "\<lambda>c. c \<noteq> newline" v] by blast
  have "concat (map (\<lambda>k. run txt EndText (drop k v, c @ [take k v])) (rev [0..<Suc (length v)]))
      = run txt EndText (drop (length v) v, c @ [take (length v) v])
        @ concat (map (\<lambda>k. run txt EndText (drop k v, c @ [take k v])) (rev [0..<length v]))"
    by (rule concat_from_top) auto
  moreover have "concat (map (\<lambda>k. run txt EndText (drop k v, c @ [take k v])) (rev [0..<length v])) = []"
    by (rule concat_all_empty) auto
  ultimately show ?thesis
    unfolding run_capture_star n using False by simp
qed

lemma run_Lit_then:
  "run txt (Cat (Lit l) R) (t, c) = (if take (length l) t = l then run txt R (drop (length l) t, c) else [])"
  by simp

lemma run_Lit_then_append: "run txt (Cat (Lit l) R) (l @ t, c) = run txt R (t, c)"
  by simp

lemma count_list_drop_le: "count_list (drop i x) c \<le> count_list x c"
proof -
  have "count_list (take i x @ drop i x) c = count_list (take i x) c + count_list (drop i x) c"
    by (rule count_list_append)
  then show ?thesis by simp
qed

lemma count_list_proper_suffix:
  assumes "0 < i"
  shows "count_list (drop i (c # x)) c \<le> count_list x c"
proof -
  from assms obtain i' where "i = Suc i'" by (cases i) auto
  then show ?thesis by (simp add: count_list_drop_le)
qed

lemma count_list_past_prefix:
  assumes "length e < j"
  shows "count_list (drop j (e @ c # y)) c \<le> count_list y c"
proof -
  have "drop j (e @ c # y) = drop (j - length e) (c # y)"
    using assms by simp
  then show ?thesis
    using assms count_list_proper_suffix [of "j - length e" c y] by simp
qed

lemma newline_not_in_labels:
  "newline \<notin> set ''/keys/''" "newline \<notin> set ''/keyVersions/''" "newline \<notin> set ''managementEndpoint/''"
  by (simp_all add: newline_def)

lemma run_version_group:
  "run txt (Cat (Lit ''/keyVersions/'') (Cat (Cap AnyStar) EndText)) (''/keyVersions/'' @ v, c)
     = (if newline \<in> set v then [] else [([], c @ [v])])"
  by (simp only: run_Lit_then_append run_last_group)

lemma version_group_shape:
  assumes "run txt (Cat (Lit ''/keyVersions/'') (Cat (Cap AnyStar) EndText)) (t, c) \<noteq> []"
  shows "\<exists>v. t = ''/keyVersions/'' @ v \<and> newline \<notin> set v"
proof -
  from assms have "take (length ''/keyVersions/'') t = ''/keyVersions/''"
    unfolding run_Lit_then by (auto split: if_splits)
  then have t: "t = ''/keyVersions/'' @ drop (length ''/keyVersions/'') t"
    by (metis append_take_drop_id)
  with assms have "newline \<notin> set (drop (length ''/keyVersions/'') t)"
    using run_version_group [of _ "drop (length ''/keyVersions/'') t" c] by (metis (full_types))
  with t show ?thesis by blast
qed

lemma run_key_first:
  assumes "newline \<notin> set k" "newline \<notin> set v" "CHR ''/'' \<notin> set v"
  shows "\<exists>rest. run txt (Cat (Cap AnyStar) (Cat (Lit ''/keyVersions/'') (Cat (Cap AnyStar) EndText)))
                  (k @ ''/keyVersions/'' @ v, c) = ([], c @ [k, v]) # rest"
proof -
  let ?R = "Cat (Lit ''/keyVersions/'') (Cat (Cap AnyStar) EndText)"
  let ?t = "k @ ''/keyVersions/'' @ v"
  let ?g = "\<lambda>j. run txt ?R (drop j ?t, c @ [take j ?t])"
  have n: "length (takeWhile (\<lambda>c. c \<noteq> newline) ?t) = length ?t"
    unfolding length_takeWhile_all using assms newline_not_in_labels by auto
  have later: "\<forall>j. length k < j \<and> j \<le> length ?t \<longrightarrow> ?g j = []"
  proof (intro allI impI)
    fix j assume j: "length k < j \<and> j \<le> length ?t"
    show "?g j = []"
    proof (rule ccontr)
      assume "?g j \<noteq> []"
      then obtain v' where shape: "drop j ?t = ''/keyVersions/'' @ v'"
        using version_group_shape by blast
      have "?t = k @ CHR ''/'' # (''keyVersions/'' @ v)"
        by simp
      then have "count_list (drop j ?t) CHR ''/'' \<le> count_list (''keyVersions/'' @ v) CHR ''/''"
        using j count_list_past_prefix [of k j "CHR ''/''"] by (simp only:)
      also have "\<dots> = 1" using assms(3) by (simp add: count_list_0_iff)
      finally have "count_list (drop j ?t) CHR ''/'' \<le> 1" .
      moreover have "count_list (''/keyVersions/'' @ v') CHR ''/'' \<ge> 2"
        by simp
      ultimately show False by (simp only: shape)
    qed
  qed
  have "drop (length k) ?t = ''/keyVersions/'' @ v" and "take (length k) ?t = k"
    by simp_all
  then have "?g (length k) = run txt ?R (''/keyVersions/'' @ v, c @ [k])"
    by (simp only:)
  also have "\<dots> = [([], (c @ [k]) @ [v])]"
    unfolding run_version_group using assms(2) by (simp only: if_False)
  finally have here: "?g (length k) = [([], c @ [k, v])]" by simp
  have "length k \<le> length ?t" by simp
  then have "concat (map ?g (rev [0..<Suc (length ?t)]))
      = ?g (length k) @ concat (map ?g (rev [0..<length k]))"
    using later by (rule concat_from_top)
  then have "run txt (Cat (Cap AnyStar) ?R) (?t, c)
      = [([], c @ [k, v])] @ concat (map ?g (rev [0..<length k]))"
    by (simp only: run_capture_star n here)
  then have "run txt (Cat (Cap AnyStar) ?R) (?t, c)
      = ([], c @ [k, v]) # concat (map ?g (rev [0..<length k]))"
    by (simp only: append_Cons append_Nil)
  then show ?thesis by (rule exI)
qed

lemma run_CapStar_iff:
  "(t', c') \<in> set (run txt (Cap AnyStar) (t, c))
     \<longleftrightarrow> (\<exists>x. t = x @ t' \<and> newline \<notin> set x \<and> c' = c @ [x])"
proof -
  have "(t', c') \<in> set (run txt (Cap AnyStar) (t, c))
      \<longleftrightarrow> (\<exists>x. t = x @ t' \<and> newline \<notin> set x) \<and> c' = c @ [take (length t - length t') t]"
    unfolding run_Cap_iff run_AnyStar_iff by blast
  also have "\<dots> \<longleftrightarrow> (\<exists>x. t = x @ t' \<and> newline \<notin> set x \<and> c' = c @ [x])"
    by auto
  finally show ?thesis .
qed

lemma import_member_iff:
  "(t', c') \<in> set (run s importPattern (s, []))
     \<longleftrightarrow> t' = [] \<and> (\<exists>e k v. c' = [e, k, v]
            \<and> s = ''managementEndpoint/'' @ e @ ''/keys/'' @ k @ ''/keyVersions/'' @ v
            \<and> newline \<notin> set e \<and> newline \<notin> set k \<and> newline \<notin> set v)"
  unfolding importPattern_def
  by (simp only: run_Cat_iff run_Lit_iff run_CapStar_iff run_EndText_iff run_BeginText_iff) auto

lemma capture_star_nonempty:
  assumes "run txt (Cat (Cap AnyStar) R) (t, c) \<noteq> []"
  shows "\<exists>x t'. t = x @ t' \<and> newline \<notin> set x \<and> run txt R (t', c @ [x]) \<noteq> []"
proof -
  from assms obtain t'' c'' where "(t'', c'') \<in> set (run txt (Cat (Cap AnyStar) R) (t, c))"
    unfolding nonempty_iff_member by auto
  then obtain t' c' where "(t', c') \<in> set (run txt (Cap AnyStar) (t, c))"
    and m: "(t'', c'') \<in> set (run txt R (t', c'))"
    unfolding run_Cat_iff by blast
  then obtain x where "t = x @ t'" "newline \<notin> set x" "c' = c @ [x]"
    unfolding run_CapStar_iff by blast
  moreover from m have "run txt R (t', c') \<noteq> []" by auto
  ultimately show ?thesis by blast
qed

lemma key_group_shape:
  assumes "run txt (Cat (Lit ''/keys/'') (Cat (Cap AnyStar)
             (Cat (Lit ''/keyVersions/'') (Cat (Cap AnyStar) EndText)))) (t, c) \<noteq> []"
  shows "\<exists>k v. t = ''/keys/'' @ k @ ''/keyVersions/'' @ v"
proof -
  let ?R2 = "Cat (Lit ''/keyVersions/'') (Cat (Cap AnyStar) EndText)"
  from assms have l: "take (length ''/keys/'') t = ''/keys/''"
    and r: "run txt (Cat (Cap AnyStar) ?R2) (drop (length ''/keys/'') t, c) \<noteq> []"
    unfolding run_Lit_then by (auto split: if_splits)
  from l have t: "t = ''/keys/'' @ drop (length ''/keys/'') t"
    by (metis append_take_drop_id)
  from capture_star_nonempty [OF r] obtain k t'
    where k: "drop (length ''/keys/'') t = k @ t'" and "run txt ?R2 (t', c @ [k]) \<noteq> []"
    by blast
  then obtain v where "t' = ''/keyVersions/'' @ v"
    using version_group_shape by blast
  with t k show ?thesis by metis
qed

lemma run_endpoint_first:
  assumes "newline \<notin> set e" "newline \<notin> set k" "newline \<notin> set v"
    and "CHR ''/'' \<notin> set k" "CHR ''/'' \<notin> set v"
  shows "\<exists>rest. run txt (Cat (Cap AnyStar) (Cat (Lit ''/keys/'') (Cat (Cap AnyStar)
                   (Cat (Lit ''/keyVersions/'') (Cat (Cap AnyStar) EndText)))))
                  (e @ ''/keys/'' @ k @ ''/keyVersions/'' @ v, c) = ([], c @ [e, k, v]) # rest"
proof -
  let ?R2 = "Cat (Lit ''/keyVersions/'') (Cat (Cap AnyStar) EndText)"
  let ?R1 = "Cat (Lit ''/keys/'') (Cat (Cap AnyStar) ?R2)"
  let ?t = "e @ ''/keys/'' @ k @ ''/keyVersions/'' @ v"
  let ?g = "\<lambda>j. run txt ?R1 (drop j ?t, c @ [take j ?t])"
  have n: "length (takeWhile (\<lambda>c. c \<noteq> newline) ?t) = length ?t"
    unfolding length_takeWhile_all using assms(1-3) newline_not_in_labels by auto
  have later: "\<forall>j. length e < j \<and> j \<le> length ?t \<longrightarrow> ?g j = []"
  proof (intro allI impI)
    fix j assume j: "length e < j \<and> j \<le> length ?t"
    show "?g j = []"
    proof (rule ccontr)
      assume "?g j \<noteq> []"
      then obtain k' v' where shape: "drop j ?t = ''/keys/'' @ k' @ ''/keyVersions/'' @ v'"
        using key_group_shape by blast
      have "?t = e @ CHR ''/'' # (''keys/'' @ k @ ''/keyVersions/'' @ v)"
        by simp
      then have "count_list (drop j ?t) CHR ''/''
          \<le> count_list (''keys/'' @ k @ ''/keyVersions/'' @ v) CHR ''/''"
        using j count_list_past_prefix [of e j "CHR ''/''"] by (simp only:)
      also have "\<dots> = 3" using assms(4,5) by (simp add: count_list_0_iff)
      finally have "count_list (drop j ?t) CHR ''/'' \<le> 3" .
      moreover have "count_list (''/keys/'' @ k' @ ''/keyVersions/'' @ v') CHR ''/'' \<ge> 4"
        by simp
      ultimately show False by (simp only: shape)
    qed
  qed
  have "drop (length e) ?t = ''/keys/'' @ (k @ ''/keyVersions/'' @ v)" and "take (length e) ?t = e"
    by simp_all
  then have "?g (length e) = run txt ?R1 (''/keys/'' @ (k @ ''/keyVersions/'' @ v), c @ [e])"
    by (simp only:)
  also have "\<dots> = run txt (Cat (Cap AnyStar) ?R2) (k @ ''/keyVersions/'' @ v, c @ [e])"
    by (rule run_Lit_then_append)
  finally obtain rest where here: "?g (length e) = ([], (c @ [e]) @ [k, v]) # rest"
    using run_key_first [OF assms(2,3,5)] by metis
  have "length e \<le> length ?t" by simp
  then have "concat (map ?g (rev [0..<Suc (length ?t)]))
      = ?g (length e) @ concat (map ?g (rev [0..<length e]))"
    using later by (rule concat_from_top)
  then have "run txt (Cat (Cap AnyStar) ?R1) (?t, c)
      = (([], (c @ [e]) @ [k, v]) # rest) @ concat (map ?g (rev [0..<length e]))"
    by (simp only: run_capture_star n here)
  then have "run txt (Cat (Cap AnyStar) ?R1) (?t, c)
      = ([], c @ [e, k, v]) # (rest @ concat (map ?g (rev [0..<length e])))"
    by (simp only: append_Cons append_assoc append_Nil)
  then show ?thesis by (rule exI)
qed

lemma run_BeginText_then: "run txt (Cat BeginText R) (txt, c) = run txt R (txt, c)"
  by simp

lemma run_BeginText_later:
  assumes "length t \<noteq> length txt"
  shows "run txt (Cat BeginText R) (t, c) = []"
  using assms by simp

lemma run_importPattern:
  "run (''managementEndpoint/'' @ t) importPattern (''managementEndpoint/'' @ t, [])
     = run (''managementEndpoint/'' @ t)
         (Cat (Cap AnyStar) (Cat (Lit ''/keys/'') (Cat (Cap AnyStar)
            (Cat (Lit ''/keyVersions/'') (Cat (Cap AnyStar) EndText))))) (t, [])"
  unfolding importPattern_def by (simp only: run_BeginText_then run_Lit_then_append)

lemma import_not_later:
  assumes "0 < k" and "k \<le> length s"
  shows "\<not> matchesAt importPattern s k"
proof -
  have "length (drop k s) \<noteq> length s" using assms by simp
  then have "run s importPattern (drop k s, []) = []"
    unfolding importPattern_def by (rule run_BeginText_later)
  then show ?thesis
    unfolding matchesAt_def by (simp only: not_not)
qed

lemma find_first_only:
  assumes "\<forall>k. 0 < k \<and> k \<le> n \<longrightarrow> \<not> P k"
  shows "find P [0..<Suc n] = (if P 0 then Some 0 else None)"
proof -
  have "[0..<Suc n] = 0 # [1..<Suc n]" by (simp add: upt_rec)
  moreover have "find P [1..<Suc n] = None"
    unfolding find_None_iff using assms by auto
  ultimately show ?thesis by simp
qed

lemma FindStringSubmatch_importPattern:
  "FindStringSubmatch importPattern s =
     (case run s importPattern (s, []) of
        [] \<Rightarrow> []
      | (t', caps) # _ \<Rightarrow> take (length s - length t') s # caps)"
proof -
  have "find (matchesAt importPattern s) [0..<Suc (length s)]
      = (if matchesAt importPattern s 0 then Some 0 else None)"
    by (rule find_first_only) (use import_not_later in blast)
  then show ?thesis
    unfolding FindStringSubmatch_def by (auto simp: matchesAt_def split: list.splits)
qed

lemma import_submatch_none:
  assumes "\<not> (\<exists>e k v. s = ''managementEndpoint/'' @ e @ ''/keys/'' @ k @ ''/keyVersions/'' @ v
              \<and> newline \<notin> set e \<and> newline \<notin> set k \<and> newline \<notin> set v)"
  shows "FindStringSubmatch importPattern s = []"
proof -
  have "run s importPattern (s, []) = []"
  proof (rule ccontr)
    assume "run s importPattern (s, []) \<noteq> []"
    then obtain t' c' where "(t', c') \<in> set (run s importPattern (s, []))"
      unfolding nonempty_iff_member by auto
    with assms show False unfolding import_member_iff by blast
  qed
  then show ?thesis unfolding FindStringSubmatch_importPattern by simp
qed

lemma import_submatch_some:
  assumes "\<exists>e k v. s = ''managementEndpoint/'' @ e @ ''/keys/'' @ k @ ''/keyVersions/'' @ v
              \<and> newline \<notin> set e \<and> newline \<notin> set k \<and> newline \<notin> set v"
  shows "\<exists>e k v. s = ''managementEndpoint/'' @ e @ ''/keys/'' @ k @ ''/keyVersions/'' @ v
              \<and> newline \<notin> set e \<and> newline \<notin> set k \<and> newline \<notin> set v
              \<and> FindStringSubmatch importPattern s = [s, e, k, v]"
proof -
  from assms obtain t0 c0 where "(t0, c0) \<in> set (run s importPattern (s, []))"
    unfolding import_member_iff by blast
  then obtain t' c' rest where first: "run s importPattern (s, []) = (t', c') # rest"
    by (cases "run s importPattern (s, [])") auto
  then have "(t', c') \<in> set (run s importPattern (s, []))" by simp
  then obtain e k v where "t' = []" "c' = [e, k, v]"
    and "s = ''managementEndpoint/'' @ e @ ''/keys/'' @ k @ ''/keyVersions/'' @ v"
    and "newline \<notin> set e" "newline \<notin> set k" "newline \<notin> set v"
    unfolding import_member_iff by blast
  moreover from this first have "FindStringSubmatch importPattern s = [s, e, k, v]"
    unfolding FindStringSubmatch_importPattern by simp
  ultimately show ?thesis by blast
qed

lemma import_submatch_exact:
  assumes "newline \<notin> set e" "newline \<notin> set k" "newline \<notin> set v"
    and "CHR ''/'' \<notin> set k" "CHR ''/'' \<notin> set v"
    and "s = ''managementEndpoint/'' @ e @ ''/keys/'' @ k @ ''/keyVersions/'' @ v"
  shows "FindStringSubmatch importPattern s = [s, e, k, v]"
proof -
  obtain rest where
    "run s importPattern (s, []) = ([], [] @ [e, k, v]) # rest"
    unfolding assms(6) run_importPattern
    using run_endpoint_first [OF assms(1-5)] by blast
  then show ?thesis
    unfolding FindStringSubmatch_importPattern by simp
qed

section \<open>The codec\<close>

lemma parse_shape:
  assumes "CHR ''/'' \<notin> set p" "CHR ''/'' \<notin> set x" "CHR ''/'' \<notin> set y" "newline \<notin> set x"
  shows "parseKeyVersionCompositeId (p @ ''keys/'' @ x @ ''/keyVersions/'' @ y)
           = Inr (dropError (PathUnescape x), dropError (PathUnescape y))"
proof -
  have "MatchString keyVersionPattern (p @ ''keys/'' @ x @ ''/keyVersions/'' @ y)"
    unfolding MatchString_keyVersionPattern using assms(4) by blast
  then show ?thesis
    unfolding parseKeyVersionCompositeId_def Let_def Split_four [OF assms(1-3)] by simp
qed

text \<open>
  The strings the decoder accepts: three slashes, the first piece ending in \<^verbatim>\<open>keys\<close>, the
  third piece \<^verbatim>\<open>keyVersions\<close>, and no newline in the second piece.
\<close>

lemma parse_accepts_iff:
  "(\<exists>r. parseKeyVersionCompositeId s = Inr r) \<longleftrightarrow>
     (\<exists>p x y. s = p @ ''keys/'' @ x @ ''/keyVersions/'' @ y
        \<and> CHR ''/'' \<notin> set p \<and> CHR ''/'' \<notin> set x \<and> CHR ''/'' \<notin> set y \<and> newline \<notin> set x)"
proof
  assume "\<exists>r. parseKeyVersionCompositeId s = Inr r"
  then have m: "MatchString keyVersionPattern s" and n: "length (Split s CHR ''/'') = 4"
    unfolding parseKeyVersionCompositeId_def Let_def by (auto split: if_splits)
  from m obtain p x y where s: "s = p @ ''keys/'' @ x @ ''/keyVersions/'' @ y"
    and x: "newline \<notin> set x"
    unfolding MatchString_keyVersionPattern by blast
  from n have "count_list s CHR ''/'' = 3" unfolding length_Split by simp
  then have "count_list p CHR ''/'' + count_list x CHR ''/'' + count_list y CHR ''/'' = 0"
    unfolding s by simp
  then have "CHR ''/'' \<notin> set p \<and> CHR ''/'' \<notin> set x \<and> CHR ''/'' \<notin> set y"
    by (simp add: count_list_0_iff)
  with s x show "\<exists>p x y. s = p @ ''keys/'' @ x @ ''/keyVersions/'' @ y
        \<and> CHR ''/'' \<notin> set p \<and> CHR ''/'' \<notin> set x \<and> CHR ''/'' \<notin> set y \<and> newline \<notin> set x"
    by blast
next
  assume "\<exists>p x y. s = p @ ''keys/'' @ x @ ''/keyVersions/'' @ y
        \<and> CHR ''/'' \<notin> set p \<and> CHR ''/'' \<notin> set x \<and> CHR ''/'' \<notin> set y \<and> newline \<notin> set x"
  then show "\<exists>r. parseKeyVersionCompositeId s = Inr r"
    using parse_shape by blast
qed

text \<open>
  Claim C1. Decoding an encoded pair gives the pair back, for every two strings: the
  slashes (and every other reserved byte) of a segment are percent-escaped, so the
  composite identifier has the three slashes of its own and no other.
\<close>

theorem codec_round_trip:
  "parseKeyVersionCompositeId (getKeyVersionCompositeId a b) = Inr (a, b)
     \<and> CHR ''/'' \<notin> set (PathEscape a) \<and> CHR ''/'' \<notin> set (PathEscape b)
     \<and> count_list (getKeyVersionCompositeId a b) CHR ''/'' = 3"
proof -
  have slash: "CHR ''/'' \<notin> set (PathEscape a)" "CHR ''/'' \<notin> set (PathEscape b)"
    unfolding PathEscape_def by (rule escape_no_slash)+
  have nl: "newline \<notin> set (PathEscape a)"
    unfolding PathEscape_def by (rule escape_no_newline)
  have "parseKeyVersionCompositeId ([] @ ''keys/'' @ PathEscape a @ ''/keyVersions/'' @ PathEscape b)
      = Inr (dropError (PathUnescape (PathEscape a)), dropError (PathUnescape (PathEscape b)))"
    using slash nl by (intro parse_shape) simp_all
  then have "parseKeyVersionCompositeId (getKeyVersionCompositeId a b) = Inr (a, b)"
    by (simp add: getKeyVersionCompositeId_def PathUnescape_PathEscape dropError_def)
  moreover have "count_list (getKeyVersionCompositeId a b) CHR ''/'' = 3"
    using slash by (simp add: getKeyVersionCompositeId_def count_list_0_iff)
  ultimately show ?thesis using slash by blast
qed

theorem codec_round_trip_witness:
  "parseKeyVersionCompositeId (getKeyVersionCompositeId ''a/b'' ''x%y z'') = Inr (''a/b'', ''x%y z'')"
  using codec_round_trip [of "''a/b''" "''x%y z''"] by simp

lemma composite_example: "getKeyVersionCompositeId ''a/b'' ''x%y z'' = ''keys/a%2Fb/keyVersions/x%25y%20z''"
  by code_simp

text \<open>
  Claim C2. The decoder accepts \<^verbatim>\<open>xkeys/a/keyVersions/b\<close>, whose first piece is \<^verbatim>\<open>xkeys\<close> and
  not the label \<^verbatim>\<open>keys\<close>: the pattern has no \<^verbatim>\<open>^\<close>, unlike the pattern of the import path.
\<close>

theorem parse_accepts_unanchored:
  "Split ''xkeys/a/keyVersions/b'' CHR ''/'' = [''xkeys'', ''a'', ''keyVersions'', ''b'']
     \<and> parseKeyVersionCompositeId ''xkeys/a/keyVersions/b'' = Inr (''a'', ''b'')"
  by code_simp

theorem parse_accepts_unanchored_witness:
  "hd (Split ''xkeys/a/keyVersions/b'' CHR ''/'') = ''xkeys''
     \<and> (\<exists>r. parseKeyVersionCompositeId ''xkeys/a/keyVersions/b'' = Inr r)"
  using parse_accepts_unanchored by simp

text \<open>The three strings the spec names are rejected, and so is a newline in the key.\<close>

lemma parse_rejects_examples:
  "parseKeyVersionCompositeId ''keys/x/keyVersions'' = Inl (IllegalCompositeId ''keys/x/keyVersions'')"
  "parseKeyVersionCompositeId ''foo/x/bar/y'' = Inl (IllegalCompositeId ''foo/x/bar/y'')"
  "parseKeyVersionCompositeId '''' = Inl (IllegalCompositeId '''')"
  by code_simp+

lemma parse_rejects_newline:
  "parseKeyVersionCompositeId (''keys/a'' @ [newline] @ ''b/keyVersions/c'')
     = Inl (IllegalCompositeId (''keys/a'' @ [newline] @ ''b/keyVersions/c''))"
  by code_simp

text \<open>
  Claim C10. When the pattern matches and there are four pieces, decoding succeeds
  whatever \<^verbatim>\<open>url.PathUnescape\<close> says of the second and the fourth piece: a piece that
  fails to unescape yields the empty string, and no error.
\<close>

theorem parse_drops_unescape_error:
  assumes "MatchString keyVersionPattern s" and "Split s CHR ''/'' = [p0, p1, p2, p3]"
  shows "\<exists>keyId keyVersionId.
           parseKeyVersionCompositeId s = Inr (keyId, keyVersionId)
           \<and> (case PathUnescape p1 of Inl e \<Rightarrow> keyId = [] | Inr v \<Rightarrow> keyId = v)
           \<and> (case PathUnescape p3 of Inl e \<Rightarrow> keyVersionId = [] | Inr v \<Rightarrow> keyVersionId = v)"
  using assms unfolding parseKeyVersionCompositeId_def Let_def dropError_def
  by (simp split: sum.splits)

theorem parse_drops_unescape_error_witness:
  "PathUnescape ''%zz'' = Inl (EscapeError ''%zz'')
     \<and> parseKeyVersionCompositeId ''keys/%zz/keyVersions/v'' = Inr ([], ''v'')"
proof -
  have m: "MatchString keyVersionPattern ''keys/%zz/keyVersions/v''" by code_simp
  have p: "Split ''keys/%zz/keyVersions/v'' CHR ''/'' = [''keys'', ''%zz'', ''keyVersions'', ''v'']"
    by code_simp
  have u: "PathUnescape ''%zz'' = Inl (EscapeError ''%zz'')" "PathUnescape ''v'' = Inr ''v''"
    by code_simp+
  from parse_drops_unescape_error [OF m p] u show ?thesis by auto
qed

section \<open>The synchronizer\<close>

lemma parse_example: "parseKeyVersionCompositeId ''keys/k/keyVersions/v'' = Inr (''k'', ''v'')"
  by code_simp

lemma parse_example_ab: "parseKeyVersionCompositeId ''keys/a/keyVersions/b'' = Inr (''a'', ''b'')"
  by code_simp

lemma parse_garbage: "parseKeyVersionCompositeId ''garbage'' = Inl (IllegalCompositeId ''garbage'')"
  by code_simp

text \<open>
  Claim C3. When the toggle parses as true, the delete entry point returns nil and
  leaves the store and the world as they were: the remote service receives nothing.
  When the toggle is unset or does not parse, the entry point goes on to the endpoint,
  the client and \<^verbatim>\<open>DeleteResource\<close>.
\<close>

theorem deletion_guard:
  "(ParseBool (getEnvSettingWithDefault env ''disable_kms_version_delete'' ''false'') = Inr True \<longrightarrow>
      deleteKmsKeyVersion env clientFor DeleteResource d w = (None, d, w))
   \<and> (env ''disable_kms_version_delete'' = None
        \<or> (\<exists>e. ParseBool (getEnvSettingWithDefault env ''disable_kms_version_delete'' ''false'') = Inl e) \<longrightarrow>
      deleteKmsKeyVersion env clientFor DeleteResource d w =
        (case GetOkExists d ''management_endpoint'' of
           None \<Rightarrow> (Some ManagementEndpointMissing, d, w)
         | Some endpoint \<Rightarrow>
             (case clientFor endpoint of
                Inl err \<Rightarrow> (Some err, d, w)
              | Inr client \<Rightarrow>
                  (case DeleteResource d (newSync d client) w of
                     (err, s', w') \<Rightarrow> (err, D s', w')))))"
proof -
  have unset: "env ''disable_kms_version_delete'' = None
      \<Longrightarrow> ParseBool (getEnvSettingWithDefault env ''disable_kms_version_delete'' ''false'') = Inr False"
    unfolding getEnvSettingWithDefault_def by (simp add: ParseBool_def)
  show ?thesis
    unfolding deleteKmsKeyVersion_def Let_def using unset by auto
qed

theorem deletion_guard_witness:
  "deleteKmsKeyVersion [''disable_kms_version_delete'' \<mapsto> ''true''] (\<lambda>e. Inr \<lparr>Host = e\<rparr>)
       (\<lambda>d. Delete (\<lambda>layout v. Inl (TimeParseError v)))
       \<lparr>rd_Id = ''keys/k/keyVersions/v'', rd_fields = [''management_endpoint'' \<mapsto> ''ep'']\<rparr>
       \<lparr>received = [], logged = [], answerGet = (\<lambda>c r. Inl (ServiceError ''down'')),
         answerScheduleDeletion = (\<lambda>c r. None)\<rparr>
     = (None, \<lparr>rd_Id = ''keys/k/keyVersions/v'', rd_fields = [''management_endpoint'' \<mapsto> ''ep'']\<rparr>,
        \<lparr>received = ([] :: nat RemoteCall list), logged = [],
          answerGet = (\<lambda>c r. Inl (ServiceError ''down'')),
          answerScheduleDeletion = (\<lambda>c r. None)\<rparr>)
   \<and> received (snd (snd (deleteKmsKeyVersion Map.empty (\<lambda>e. Inr \<lparr>Host = e\<rparr>)
       (\<lambda>d. Delete (\<lambda>layout v. Inl (TimeParseError v)))
       \<lparr>rd_Id = ''keys/k/keyVersions/v'', rd_fields = [''management_endpoint'' \<mapsto> ''ep'']\<rparr>
       \<lparr>received = [], logged = [], answerGet = (\<lambda>c r. Inl (ServiceError ''down'')),
         answerScheduleDeletion = (\<lambda>c r. None)\<rparr>)))
     = [ScheduleKeyVersionDeletionCall \<lparr>Host = ''ep''\<rparr>
          \<lparr>del_KeyId = Some ''k'', del_KeyVersionId = Some ''v'',
            del_TimeOfDeletion = (None :: nat option),
            del_RetryPolicy = Some (RetryPolicyFor False ''kms'')\<rparr>]"
proof -
  have engaged: "ParseBool (getEnvSettingWithDefault [''disable_kms_version_delete'' \<mapsto> ''true'']
      ''disable_kms_version_delete'' ''false'') = Inr True"
    by (simp add: getEnvSettingWithDefault_def ParseBool_def)
  have unset: "(Map.empty :: string \<rightharpoonup> string) ''disable_kms_version_delete'' = None"
    by simp
  note on = deletion_guard [THEN conjunct1, rule_format, OF engaged]
  note off = deletion_guard [THEN conjunct2, rule_format, OF disjI1, OF unset]
  show ?thesis
    by (simp only: on off)
       (simp add: GetOkExists_def newSync_def Delete_def parse_example
        ScheduleKeyVersionDeletion_def getRetryPolicy_def)
qed

text \<open>
  Claim C4. When the stored identifier does not decode, \<open>Get\<close> and \<open>Delete\<close> return the
  decoder's error and the remote service receives nothing. When it decodes, \<open>Get\<close> sends
  one request for the decoded pair, and the key version that comes back becomes \<open>Res\<close>.
\<close>

theorem decode_gate:
  "(parseKeyVersionCompositeId (rd_Id (D s)) = Inl err \<longrightarrow>
      (\<exists>w'. Get s w = (Some err, s, w') \<and> received w' = received w)
      \<and> (\<exists>w'. Delete time_Parse s w = (Some err, s, w') \<and> received w' = received w))
   \<and> (parseKeyVersionCompositeId (rd_Id (D s)) = Inr (keyId, keyVersionId) \<longrightarrow>
      (\<exists>e s' w'. Get s w = (e, s', w')
         \<and> received w' = received w @ [GetKeyVersionCall (Client s)
              \<lparr>get_KeyId = Some keyId, get_KeyVersionId = Some keyVersionId,
                get_RetryPolicy = Some (getRetryPolicy (DisableNotFoundRetries s) ''kms'')\<rparr>]
         \<and> (case answerGet w (Client s)
                   \<lparr>get_KeyId = Some keyId, get_KeyVersionId = Some keyVersionId,
                     get_RetryPolicy = Some (getRetryPolicy (DisableNotFoundRetries s) ''kms'')\<rparr> of
               Inl err \<Rightarrow> e = Some err \<and> s' = s
             | Inr response \<Rightarrow> e = None \<and> s' = s\<lparr>Res := Some response\<rparr>)))"
proof (intro conjI impI)
  assume "parseKeyVersionCompositeId (rd_Id (D s)) = Inl err"
  then show "\<exists>w'. Get s w = (Some err, s, w') \<and> received w' = received w"
    and "\<exists>w'. Delete time_Parse s w = (Some err, s, w') \<and> received w' = received w"
    by (simp_all add: Get_def Delete_def Printf_def)
next
  let ?request = "\<lparr>get_KeyId = Some keyId, get_KeyVersionId = Some keyVersionId,
      get_RetryPolicy = Some (getRetryPolicy (DisableNotFoundRetries s) ''kms'')\<rparr>"
  assume ok: "parseKeyVersionCompositeId (rd_Id (D s)) = Inr (keyId, keyVersionId)"
  show "\<exists>e s' w'. Get s w = (e, s', w')
         \<and> received w' = received w @ [GetKeyVersionCall (Client s) ?request]
         \<and> (case answerGet w (Client s) ?request of
               Inl err \<Rightarrow> e = Some err \<and> s' = s
             | Inr response \<Rightarrow> e = None \<and> s' = s\<lparr>Res := Some response\<rparr>)"
  proof (cases "answerGet w (Client s) ?request")
    case (Inl err')
    with ok show ?thesis by (simp add: Get_def GetKeyVersion_def)
  next
    case (Inr response)
    with ok show ?thesis by (simp add: Get_def GetKeyVersion_def)
  qed
qed

theorem decode_gate_witness:
  "fst (Get \<lparr>D = \<lparr>rd_Id = ''garbage'', rd_fields = Map.empty\<rparr>, Client = \<lparr>Host = ''ep''\<rparr>,
              Res = None, DisableNotFoundRetries = False\<rparr>
          \<lparr>received = ([] :: nat RemoteCall list), logged = [],
            answerGet = (\<lambda>c r. Inl (ServiceError ''down'')),
            answerScheduleDeletion = (\<lambda>c r. None)\<rparr>)
     = Some (IllegalCompositeId ''garbage'')
   \<and> received (snd (snd (Get \<lparr>D = \<lparr>rd_Id = ''garbage'', rd_fields = Map.empty\<rparr>,
              Client = \<lparr>Host = ''ep''\<rparr>, Res = None, DisableNotFoundRetries = False\<rparr>
          \<lparr>received = ([] :: nat RemoteCall list), logged = [],
            answerGet = (\<lambda>c r. Inl (ServiceError ''down'')),
            answerScheduleDeletion = (\<lambda>c r. None)\<rparr>))) = []"
proof -
  let ?s = "\<lparr>D = \<lparr>rd_Id = ''garbage'', rd_fields = Map.empty\<rparr>, Client = \<lparr>Host = ''ep''\<rparr>,
              Res = None, DisableNotFoundRetries = False\<rparr> :: nat KmsKeyVersionResourceCrud"
  have bad: "parseKeyVersionCompositeId (rd_Id (D ?s)) = Inl (IllegalCompositeId ''garbage'')"
    by (simp add: parse_garbage)
  let ?w = "\<lparr>received = ([] :: nat RemoteCall list), logged = [],
            answerGet = (\<lambda>c r. Inl (ServiceError ''down'')),
            answerScheduleDeletion = (\<lambda>c r. None)\<rparr>"
  from decode_gate [where s = ?s and w = ?w, THEN conjunct1, rule_format, OF bad, THEN conjunct1]
  obtain w' where "Get ?s ?w = (Some (IllegalCompositeId ''garbage''), ?s, w')"
    and "received w' = received ?w"
    by blast
  then show ?thesis by simp
qed

text \<open>
  Claim C7. With a decodable identifier and the field \<^verbatim>\<open>time_of_deletion\<close> set, \<open>Delete\<close>
  parses the field with the layout \<^verbatim>\<open>RFC3339Nano\<close>. A parse error is returned with the
  world untouched; a parsed time goes into the one request that is sent.
\<close>

theorem delete_timestamp:
  assumes "parseKeyVersionCompositeId (rd_Id (D s)) = Inr (keyId, keyVersionId)"
    and "GetOkExists (D s) ''time_of_deletion'' = Some timeOfDeletion"
  shows "(time_Parse RFC3339Nano timeOfDeletion = Inl err \<longrightarrow>
            Delete time_Parse s w = (Some err, s, w))
     \<and> (time_Parse RFC3339Nano timeOfDeletion = Inr tmpTime \<longrightarrow>
            Delete time_Parse s w =
              (answerScheduleDeletion w (Client s)
                 \<lparr>del_KeyId = Some keyId, del_KeyVersionId = Some keyVersionId,
                   del_TimeOfDeletion = Some tmpTime,
                   del_RetryPolicy = Some (getRetryPolicy (DisableNotFoundRetries s) ''kms'')\<rparr>,
               s,
               w\<lparr>received := received w @ [ScheduleKeyVersionDeletionCall (Client s)
                 \<lparr>del_KeyId = Some keyId, del_KeyVersionId = Some keyVersionId,
                   del_TimeOfDeletion = Some tmpTime,
                   del_RetryPolicy = Some (getRetryPolicy (DisableNotFoundRetries s) ''kms'')\<rparr>]\<rparr>))"
  using assms by (simp add: Delete_def ScheduleKeyVersionDeletion_def)

theorem delete_timestamp_witness:
  "Delete (\<lambda>layout v. if layout = RFC3339Nano \<and> v = ''2019-04-03T21:10:29.600Z''
                        then Inr (1554325829600 :: nat) else Inl (TimeParseError v))
      \<lparr>D = \<lparr>rd_Id = ''keys/k/keyVersions/v'', rd_fields = [''time_of_deletion'' \<mapsto> ''tomorrow'']\<rparr>,
        Client = \<lparr>Host = ''ep''\<rparr>, Res = None, DisableNotFoundRetries = False\<rparr>
      \<lparr>received = [], logged = [], answerGet = (\<lambda>c r. Inl (ServiceError ''down'')),
        answerScheduleDeletion = (\<lambda>c r. None)\<rparr>
    = (Some (TimeParseError ''tomorrow''),
       \<lparr>D = \<lparr>rd_Id = ''keys/k/keyVersions/v'', rd_fields = [''time_of_deletion'' \<mapsto> ''tomorrow'']\<rparr>,
        Client = \<lparr>Host = ''ep''\<rparr>, Res = None, DisableNotFoundRetries = False\<rparr>,
       \<lparr>received = [], logged = [], answerGet = (\<lambda>c r. Inl (ServiceError ''down'')),
        answerScheduleDeletion = (\<lambda>c r. None)\<rparr>)
   \<and> received (snd (snd (Delete (\<lambda>layout v. if layout = RFC3339Nano \<and> v = ''2019-04-03T21:10:29.600Z''
                        then Inr (1554325829600 :: nat) else Inl (TimeParseError v))
      \<lparr>D = \<lparr>rd_Id = ''keys/k/keyVersions/v'',
             rd_fields = [''time_of_deletion'' \<mapsto> ''2019-04-03T21:10:29.600Z'']\<rparr>,
        Client = \<lparr>Host = ''ep''\<rparr>, Res = None, DisableNotFoundRetries = False\<rparr>
      \<lparr>received = [], logged = [], answerGet = (\<lambda>c r. Inl (ServiceError ''down'')),
        answerScheduleDeletion = (\<lambda>c r. None)\<rparr>)))
    = [ScheduleKeyVersionDeletionCall \<lparr>Host = ''ep''\<rparr>
         \<lparr>del_KeyId = Some ''k'', del_KeyVersionId = Some ''v'',
           del_TimeOfDeletion = Some 1554325829600,
           del_RetryPolicy = Some (RetryPolicyFor False ''kms'')\<rparr>]"
proof -
  let ?tp = "\<lambda>layout v. if layout = RFC3339Nano \<and> v = ''2019-04-03T21:10:29.600Z''
                        then Inr (1554325829600 :: nat) else Inl (TimeParseError v)"
  let ?w = "\<lparr>received = [], logged = [], answerGet = (\<lambda>c r. Inl (ServiceError ''down'')),
        answerScheduleDeletion = (\<lambda>c r. None)\<rparr> :: nat World"
  let ?s1 = "\<lparr>D = \<lparr>rd_Id = ''keys/k/keyVersions/v'', rd_fields = [''time_of_deletion'' \<mapsto> ''tomorrow'']\<rparr>,
        Client = \<lparr>Host = ''ep''\<rparr>, Res = None, DisableNotFoundRetries = False\<rparr>
        :: nat KmsKeyVersionResourceCrud"
  let ?s2 = "\<lparr>D = \<lparr>rd_Id = ''keys/k/keyVersions/v'',
             rd_fields = [''time_of_deletion'' \<mapsto> ''2019-04-03T21:10:29.600Z'']\<rparr>,
        Client = \<lparr>Host = ''ep''\<rparr>, Res = None, DisableNotFoundRetries = False\<rparr>
        :: nat KmsKeyVersionResourceCrud"
  have p1: "parseKeyVersionCompositeId (rd_Id (D ?s1)) = Inr (''k'', ''v'')"
    and p2: "parseKeyVersionCompositeId (rd_Id (D ?s2)) = Inr (''k'', ''v'')"
    by (simp_all add: parse_example)
  have t1: "GetOkExists (D ?s1) ''time_of_deletion'' = Some ''tomorrow''"
    and t2: "GetOkExists (D ?s2) ''time_of_deletion'' = Some ''2019-04-03T21:10:29.600Z''"
    by (simp_all add: GetOkExists_def)
  have bad: "?tp RFC3339Nano ''tomorrow'' = Inl (TimeParseError ''tomorrow'')"
    and good: "?tp RFC3339Nano ''2019-04-03T21:10:29.600Z'' = Inr 1554325829600"
    by simp_all
  note fails = delete_timestamp [OF p1 t1, THEN conjunct1, rule_format, of ?tp, OF bad]
  note sends = delete_timestamp [OF p2 t2, THEN conjunct2, rule_format, of ?tp, OF good]
  show ?thesis
    by (simp only: fails sends) (simp add: getRetryPolicy_def)
qed

text \<open>
  Claim C6, as amended. With a snapshot, \<open>SetData\<close> returns nil and calls nothing.
  The identifier is handled first: when it decodes, \<^verbatim>\<open>key_id\<close> and \<^verbatim>\<open>key_version_id\<close> are
  set from it; when it does not, a line is logged and both are left alone. Then every
  non-nil field of the snapshot, and its state, overwrites its local field. So a field
  whose snapshot value is nil keeps its value, except \<^verbatim>\<open>key_id\<close>, which keeps the decoded
  key when the identifier decodes. No other field changes.
\<close>

theorem SetData_projection:
  assumes "Res s = Some res"
  shows "\<exists>d' w'. SetData str time_String s w = (None, s\<lparr>D := d'\<rparr>, w')
     \<and> received w' = received w
     \<and> logged w' =
         (case parseKeyVersionCompositeId (rd_Id (D s)) of
            Inl err \<Rightarrow> logged w @ [''[WARN] SetData() unable to parse current ID: '' @ rd_Id (D s)]
          | Inr ids \<Rightarrow> logged w)
     \<and> rd_Id d' = rd_Id (D s)
     \<and> rd_fields d' ''key_version_id'' =
         (case parseKeyVersionCompositeId (rd_Id (D s)) of
            Inl err \<Rightarrow> rd_fields (D s) ''key_version_id''
          | Inr ids \<Rightarrow> Some (snd ids))
     \<and> rd_fields d' ''key_id'' =
         (case KeyId res of
            Some v \<Rightarrow> Some v
          | None \<Rightarrow>
              (case parseKeyVersionCompositeId (rd_Id (D s)) of
                 Inl err \<Rightarrow> rd_fields (D s) ''key_id''
               | Inr ids \<Rightarrow> Some (fst ids)))
     \<and> rd_fields d' ''compartment_id'' =
         (case CompartmentId res of Some v \<Rightarrow> Some v | None \<Rightarrow> rd_fields (D s) ''compartment_id'')
     \<and> rd_fields d' ''state'' = Some (str (LifecycleState res))
     \<and> rd_fields d' ''time_created'' =
         (case TimeCreated res of
            Some t \<Rightarrow> Some (time_String t)
          | None \<Rightarrow> rd_fields (D s) ''time_created'')
     \<and> rd_fields d' ''time_of_deletion'' =
         (case TimeOfDeletion res of
            Some t \<Rightarrow> Some (time_String t)
          | None \<Rightarrow> rd_fields (D s) ''time_of_deletion'')
     \<and> rd_fields d' ''vault_id'' =
         (case VaultId res of Some v \<Rightarrow> Some v | None \<Rightarrow> rd_fields (D s) ''vault_id'')
     \<and> (\<forall>key. key \<notin> {''key_id'', ''key_version_id'', ''compartment_id'', ''state'',
                       ''time_created'', ''time_of_deletion'', ''vault_id''}
            \<longrightarrow> rd_fields d' key = rd_fields (D s) key)"
proof -
  obtain d0 w0 where first:
    "(case parseKeyVersionCompositeId (rd_Id (D s)) of
               Inr (keyId, keyVersionId) \<Rightarrow>
                 (Set (Set (D s) ''key_id'' keyId) ''key_version_id'' keyVersionId, w)
             | Inl err \<Rightarrow>
                 (D s, Printf (''[WARN] SetData() unable to parse current ID: '' @ rd_Id (D s)) w))
       = (d0, w0)"
    by (cases "case parseKeyVersionCompositeId (rd_Id (D s)) of
               Inr (keyId, keyVersionId) \<Rightarrow>
                 (Set (Set (D s) ''key_id'' keyId) ''key_version_id'' keyVersionId, w)
             | Inl err \<Rightarrow>
                 (D s, Printf (''[WARN] SetData() unable to parse current ID: '' @ rd_Id (D s)) w)")
       blast
  have w0: "received w0 = received w"
    "logged w0 = (case parseKeyVersionCompositeId (rd_Id (D s)) of
            Inl err \<Rightarrow> logged w @ [''[WARN] SetData() unable to parse current ID: '' @ rd_Id (D s)]
          | Inr ids \<Rightarrow> logged w)"
    using first by (auto simp: Printf_def split: sum.splits prod.splits)
  have d0: "rd_Id d0 = rd_Id (D s)"
    "rd_fields d0 = (case parseKeyVersionCompositeId (rd_Id (D s)) of
            Inl err \<Rightarrow> rd_fields (D s)
          | Inr ids \<Rightarrow> (rd_fields (D s))(''key_id'' \<mapsto> fst ids, ''key_version_id'' \<mapsto> snd ids))"
    using first by (auto simp: Set_def split: sum.splits prod.splits)
  let ?d6 = "setIfPresent ''vault_id'' (VaultId res)
      (setIfPresent ''time_of_deletion'' (map_option time_String (TimeOfDeletion res))
        (setIfPresent ''time_created'' (map_option time_String (TimeCreated res))
          (Set (setIfPresent ''key_id'' (KeyId res)
                 (setIfPresent ''compartment_id'' (CompartmentId res) d0))
             ''state'' (str (LifecycleState res)))))"
  have run: "SetData str time_String s w = (None, s\<lparr>D := ?d6\<rparr>, w0)"
    unfolding SetData_def first using assms by (simp add: Let_def)
  have id6: "rd_Id ?d6 = rd_Id (D s)"
    using d0(1) by (simp add: setIfPresent_def Set_def split: option.splits)
  have f6: "rd_fields ?d6 =
      (rd_fields d0 ++ (case CompartmentId res of None \<Rightarrow> Map.empty | Some v \<Rightarrow> [''compartment_id'' \<mapsto> v])
         ++ (case KeyId res of None \<Rightarrow> Map.empty | Some v \<Rightarrow> [''key_id'' \<mapsto> v])
         ++ [''state'' \<mapsto> str (LifecycleState res)]
         ++ (case TimeCreated res of None \<Rightarrow> Map.empty | Some t \<Rightarrow> [''time_created'' \<mapsto> time_String t])
         ++ (case TimeOfDeletion res of None \<Rightarrow> Map.empty | Some t \<Rightarrow> [''time_of_deletion'' \<mapsto> time_String t])
         ++ (case VaultId res of None \<Rightarrow> Map.empty | Some v \<Rightarrow> [''vault_id'' \<mapsto> v]))"
    by (simp add: setIfPresent_def Set_def split: option.splits)
  show ?thesis
    apply (rule exI [of _ ?d6], rule exI [of _ w0])
    apply (intro conjI)
               apply (rule run)
              apply (rule w0(1))
             apply (rule w0(2))
            apply (rule id6)
           apply (simp_all only: f6 d0(2))
           apply (simp_all add: map_add_def split: option.splits sum.splits)
    done
qed

text \<open>
  Claim C6, as stated, fails: with a decodable identifier and a snapshot whose \<open>KeyId\<close>
  is nil, the local \<^verbatim>\<open>key_id\<close> changes from \<^verbatim>\<open>old\<close> to the decoded \<^verbatim>\<open>a\<close>.
\<close>

theorem SetData_touches_key_id:
  "KeyId \<lparr>CompartmentId = None, Id = None, KeyId = None, LifecycleState = Enabled,
           TimeCreated = None, TimeOfDeletion = (None :: nat option), VaultId = None\<rparr> = None
   \<and> rd_fields \<lparr>rd_Id = ''keys/a/keyVersions/b'', rd_fields = [''key_id'' \<mapsto> ''old'']\<rparr> ''key_id''
       = Some ''old''
   \<and> rd_fields (D (fst (snd (SetData (\<lambda>st. ''ENABLED'') (\<lambda>t. ''2019'')
         \<lparr>D = \<lparr>rd_Id = ''keys/a/keyVersions/b'', rd_fields = [''key_id'' \<mapsto> ''old'']\<rparr>,
           Client = \<lparr>Host = ''ep''\<rparr>,
           Res = Some \<lparr>CompartmentId = None, Id = None, KeyId = None, LifecycleState = Enabled,
                       TimeCreated = None, TimeOfDeletion = (None :: nat option), VaultId = None\<rparr>,
           DisableNotFoundRetries = False\<rparr>
         \<lparr>received = [], logged = [], answerGet = (\<lambda>c r. Inl (ServiceError ''down'')),
           answerScheduleDeletion = (\<lambda>c r. None)\<rparr>)))) ''key_id''
       = Some ''a''"
  by (simp add: SetData_def parse_example_ab Set_def setIfPresent_def)

theorem SetData_projection_witness:
  "fst (SetData (\<lambda>st. ''ENABLED'') (\<lambda>t. ''2019'')
         \<lparr>D = \<lparr>rd_Id = ''garbage'', rd_fields = [''key_id'' \<mapsto> ''old'', ''compartment_id'' \<mapsto> ''c0'']\<rparr>,
           Client = \<lparr>Host = ''ep''\<rparr>,
           Res = Some \<lparr>CompartmentId = None, Id = Some ''v1'', KeyId = None, LifecycleState = Enabled,
                       TimeCreated = Some (7 :: nat), TimeOfDeletion = None, VaultId = Some ''vault1''\<rparr>,
           DisableNotFoundRetries = False\<rparr>
         \<lparr>received = [], logged = [], answerGet = (\<lambda>c r. Inl (ServiceError ''down'')),
           answerScheduleDeletion = (\<lambda>c r. None)\<rparr>) = None
   \<and> map (rd_fields (D (fst (snd (SetData (\<lambda>st. ''ENABLED'') (\<lambda>t. ''2019'')
         \<lparr>D = \<lparr>rd_Id = ''garbage'', rd_fields = [''key_id'' \<mapsto> ''old'', ''compartment_id'' \<mapsto> ''c0'']\<rparr>,
           Client = \<lparr>Host = ''ep''\<rparr>,
           Res = Some \<lparr>CompartmentId = None, Id = Some ''v1'', KeyId = None, LifecycleState = Enabled,
                       TimeCreated = Some (7 :: nat), TimeOfDeletion = None, VaultId = Some ''vault1''\<rparr>,
           DisableNotFoundRetries = False\<rparr>
         \<lparr>received = [], logged = [], answerGet = (\<lambda>c r. Inl (ServiceError ''down'')),
           answerScheduleDeletion = (\<lambda>c r. None)\<rparr>)))))
       [''key_id'', ''key_version_id'', ''compartment_id'', ''state'', ''time_created'',
        ''time_of_deletion'', ''vault_id'']
     = [Some ''old'', None, Some ''c0'', Some ''ENABLED'', Some ''2019'', None, Some ''vault1'']"
proof -
  let ?res = "\<lparr>CompartmentId = None, Id = Some ''v1'', KeyId = None, LifecycleState = Enabled,
                TimeCreated = Some (7 :: nat), TimeOfDeletion = None, VaultId = Some ''vault1''\<rparr>"
  let ?s = "\<lparr>D = \<lparr>rd_Id = ''garbage'', rd_fields = [''key_id'' \<mapsto> ''old'', ''compartment_id'' \<mapsto> ''c0'']\<rparr>,
           Client = \<lparr>Host = ''ep''\<rparr>, Res = Some ?res, DisableNotFoundRetries = False\<rparr>"
  let ?w = "\<lparr>received = [], logged = [], answerGet = (\<lambda>c r. Inl (ServiceError ''down'')),
           answerScheduleDeletion = (\<lambda>c r. None)\<rparr> :: nat World"
  have res: "Res ?s = Some ?res" by simp
  from SetData_projection [OF res, of "\<lambda>st. ''ENABLED''" "\<lambda>t. ''2019''" ?w]
  obtain d' w' where run: "SetData (\<lambda>st. ''ENABLED'') (\<lambda>t. ''2019'') ?s ?w = (None, ?s\<lparr>D := d'\<rparr>, w')"
    and fields: "rd_fields d' ''key_version_id'' =
         (case parseKeyVersionCompositeId (rd_Id (D ?s)) of
            Inl err \<Rightarrow> rd_fields (D ?s) ''key_version_id''
          | Inr ids \<Rightarrow> Some (snd ids))"
      "rd_fields d' ''key_id'' =
         (case KeyId ?res of
            Some v \<Rightarrow> Some v
          | None \<Rightarrow>
              (case parseKeyVersionCompositeId (rd_Id (D ?s)) of
                 Inl err \<Rightarrow> rd_fields (D ?s) ''key_id''
               | Inr ids \<Rightarrow> Some (fst ids)))"
      "rd_fields d' ''compartment_id'' =
         (case CompartmentId ?res of Some v \<Rightarrow> Some v | None \<Rightarrow> rd_fields (D ?s) ''compartment_id'')"
      "rd_fields d' ''state'' = Some ((\<lambda>st. ''ENABLED'') (LifecycleState ?res))"
      "rd_fields d' ''time_created'' =
         (case TimeCreated ?res of
            Some t \<Rightarrow> Some ((\<lambda>t. ''2019'') t)
          | None \<Rightarrow> rd_fields (D ?s) ''time_created'')"
      "rd_fields d' ''time_of_deletion'' =
         (case TimeOfDeletion ?res of
            Some t \<Rightarrow> Some ((\<lambda>t. ''2019'') t)
          | None \<Rightarrow> rd_fields (D ?s) ''time_of_deletion'')"
      "rd_fields d' ''vault_id'' =
         (case VaultId ?res of Some v \<Rightarrow> Some v | None \<Rightarrow> rd_fields (D ?s) ''vault_id'')"
    by blast
  show ?thesis
    unfolding run using fields by (simp add: parse_garbage)
qed

text \<open>
  Claim C8. Once the snapshot is there, with its key and its own identity, \<open>ID\<close> is the
  composite identifier of these two, and the local store has no part in it.
\<close>

theorem identity_from_snapshot:
  assumes "Res s = Some res" and "KeyId res = Some keyId" and "Id res = Some versionId"
  shows "ID s = Inr (getKeyVersionCompositeId keyId versionId) \<and> ID (s\<lparr>D := d'\<rparr>) = ID s"
  using assms by (simp add: ID_def)

theorem identity_from_snapshot_witness:
  "ID (\<lparr>D = \<lparr>rd_Id = ''keys/local/keyVersions/stale'', rd_fields = [''key_id'' \<mapsto> ''local'']\<rparr>,
        Client = \<lparr>Host = ''ep''\<rparr>,
        Res = Some \<lparr>CompartmentId = None, Id = Some ''v/1'', KeyId = Some ''k 1'',
                    LifecycleState = Enabled, TimeCreated = None, TimeOfDeletion = (None :: nat option),
                    VaultId = None\<rparr>,
        DisableNotFoundRetries = False\<rparr>)
     = Inr ''keys/k%201/keyVersions/v%2F1''"
proof -
  let ?res = "\<lparr>CompartmentId = None, Id = Some ''v/1'', KeyId = Some ''k 1'',
                LifecycleState = Enabled, TimeCreated = None, TimeOfDeletion = (None :: nat option),
                VaultId = None\<rparr>"
  let ?s = "\<lparr>D = \<lparr>rd_Id = ''keys/local/keyVersions/stale'', rd_fields = [''key_id'' \<mapsto> ''local'']\<rparr>,
        Client = \<lparr>Host = ''ep''\<rparr>, Res = Some ?res, DisableNotFoundRetries = False\<rparr>"
  have c: "getKeyVersionCompositeId ''k 1'' ''v/1'' = ''keys/k%201/keyVersions/v%2F1''"
    by code_simp
  have "Res ?s = Some ?res" "KeyId ?res = Some ''k 1''" "Id ?res = Some ''v/1''"
    by simp_all
  from identity_from_snapshot [OF this] show ?thesis
    unfolding c by blast
qed

text \<open>
  Claim C9. The four tables of pending and target states, the same for every
  synchronizer: create waits through Creating and Enabling for Enabled, delete waits
  through Disabled, Deleting and SchedulingDeletion for Deleted or PendingDeletion.
\<close>

theorem state_tables:
  "CreatedPending str s = map str [Creating, Enabling]
     \<and> CreatedTarget str s = map str [Enabled]
     \<and> DeletedPending str s = map str [Disabled, Deleting, SchedulingDeletion]
     \<and> DeletedTarget str s = map str [Deleted, PendingDeletion]"
  by (simp add: CreatedPending_def CreatedTarget_def DeletedPending_def DeletedTarget_def)

theorem state_tables_witness:
  "set (CreatedPending (\<lambda>st. if st = Creating then ''CREATING'' else ''ENABLING'')
          (newSync \<lparr>rd_Id = [], rd_fields = Map.empty\<rparr> \<lparr>Host = ''ep''\<rparr>
             :: nat KmsKeyVersionResourceCrud))
     = {''CREATING'', ''ENABLING''}"
  using state_tables [of "\<lambda>st. if st = Creating then ''CREATING'' else ''ENABLING''"
      "newSync \<lparr>rd_Id = [], rd_fields = Map.empty\<rparr> \<lparr>Host = ''ep''\<rparr> :: nat KmsKeyVersionResourceCrud"]
  by simp

text \<open>
  Claim C5, as amended. On the import path (no \<^verbatim>\<open>management_endpoint\<close> in the store) the
  identifier is matched against the import pattern, whose three segments are runs
  without a newline. When the key and the version hold no slash the three segments are
  read off as they stand; in every case of a match the fields \<^verbatim>\<open>management_endpoint\<close>,
  \<^verbatim>\<open>key_id\<close> and \<^verbatim>\<open>key_version_id\<close> get three segments the identifier is made of and the
  identifier becomes their composite, before the client is built and \<^verbatim>\<open>ReadResource\<close>
  runs. Every other identifier, one of the shape with a newline in a segment among
  them, gets the format error and the store is as it was.
\<close>

theorem import_parsing:
  fixes w :: "'t World"
  assumes "GetOkExists d ''management_endpoint'' = None"
  shows "(\<forall>e k v. rd_Id d = ''managementEndpoint/'' @ e @ ''/keys/'' @ k @ ''/keyVersions/'' @ v
            \<and> newline \<notin> set e \<and> newline \<notin> set k \<and> newline \<notin> set v
            \<and> CHR ''/'' \<notin> set k \<and> CHR ''/'' \<notin> set v \<longrightarrow>
          readKmsKeyVersion clientFor ReadResource d w =
            (let d' = \<lparr>rd_Id = getKeyVersionCompositeId k v,
                       rd_fields = (rd_fields d)(''management_endpoint'' \<mapsto> e, ''key_id'' \<mapsto> k,
                                                 ''key_version_id'' \<mapsto> v)\<rparr>
             in case clientFor e of
                  Inl err \<Rightarrow> (Some err, d', w)
                | Inr client \<Rightarrow>
                    (case ReadResource (newSync d' client) w of (err, s', w') \<Rightarrow> (err, D s', w'))))
     \<and> ((\<exists>e k v. rd_Id d = ''managementEndpoint/'' @ e @ ''/keys/'' @ k @ ''/keyVersions/'' @ v
            \<and> newline \<notin> set e \<and> newline \<notin> set k \<and> newline \<notin> set v) \<longrightarrow>
         (\<exists>e k v. rd_Id d = ''managementEndpoint/'' @ e @ ''/keys/'' @ k @ ''/keyVersions/'' @ v
            \<and> readKmsKeyVersion clientFor ReadResource d w =
            (let d' = \<lparr>rd_Id = getKeyVersionCompositeId k v,
                       rd_fields = (rd_fields d)(''management_endpoint'' \<mapsto> e, ''key_id'' \<mapsto> k,
                                                 ''key_version_id'' \<mapsto> v)\<rparr>
             in case clientFor e of
                  Inl err \<Rightarrow> (Some err, d', w)
                | Inr client \<Rightarrow>
                    (case ReadResource (newSync d' client) w of (err, s', w') \<Rightarrow> (err, D s', w')))))
     \<and> (\<not> (\<exists>e k v. rd_Id d = ''managementEndpoint/'' @ e @ ''/keys/'' @ k @ ''/keyVersions/'' @ v
            \<and> newline \<notin> set e \<and> newline \<notin> set k \<and> newline \<notin> set v) \<longrightarrow>
         readKmsKeyVersion clientFor ReadResource d w = (Some (ImportFormat (rd_Id d)), d, w))"
proof -
  have imported: "readKmsKeyVersion clientFor ReadResource d w =
            (let d' = \<lparr>rd_Id = getKeyVersionCompositeId k v,
                       rd_fields = (rd_fields d)(''management_endpoint'' \<mapsto> e, ''key_id'' \<mapsto> k,
                                                 ''key_version_id'' \<mapsto> v)\<rparr>
             in case clientFor e of
                  Inl err \<Rightarrow> (Some err, d', w)
                | Inr client \<Rightarrow>
                    (case ReadResource (newSync d' client) w of (err, s', w') \<Rightarrow> (err, D s', w')))"
    if "FindStringSubmatch importPattern (rd_Id d) = [rd_Id d, e, k, v]" for e k v
  proof -
    have tokens: "[rd_Id d, e, k, v] ! 1 = e" "[rd_Id d, e, k, v] ! 2 = k" "[rd_Id d, e, k, v] ! 3 = v"
      by (simp_all add: numeral_2_eq_2 numeral_3_eq_3)
    have stored: "SetId (Set (Set (Set d ''management_endpoint'' e) ''key_id'' k)
                     ''key_version_id'' v) (getKeyVersionCompositeId k v)
        = \<lparr>rd_Id = getKeyVersionCompositeId k v,
           rd_fields = (rd_fields d)(''management_endpoint'' \<mapsto> e, ''key_id'' \<mapsto> k,
                                     ''key_version_id'' \<mapsto> v)\<rparr>"
      by (simp add: Set_def SetId_def)
    show ?thesis
      unfolding readKmsKeyVersion_def Let_def assms that tokens stored
      by simp
  qed
  have rejected: "readKmsKeyVersion clientFor ReadResource d w = (Some (ImportFormat (rd_Id d)), d, w)"
    if "FindStringSubmatch importPattern (rd_Id d) = []"
    unfolding readKmsKeyVersion_def Let_def assms that by simp
  show ?thesis
  proof (intro conjI allI impI)
    fix e k v
    assume "rd_Id d = ''managementEndpoint/'' @ e @ ''/keys/'' @ k @ ''/keyVersions/'' @ v
            \<and> newline \<notin> set e \<and> newline \<notin> set k \<and> newline \<notin> set v
            \<and> CHR ''/'' \<notin> set k \<and> CHR ''/'' \<notin> set v"
    then have "FindStringSubmatch importPattern (rd_Id d) = [rd_Id d, e, k, v]"
      by (intro import_submatch_exact) simp_all
    then show "readKmsKeyVersion clientFor ReadResource d w =
            (let d' = \<lparr>rd_Id = getKeyVersionCompositeId k v,
                       rd_fields = (rd_fields d)(''management_endpoint'' \<mapsto> e, ''key_id'' \<mapsto> k,
                                                 ''key_version_id'' \<mapsto> v)\<rparr>
             in case clientFor e of
                  Inl err \<Rightarrow> (Some err, d', w)
                | Inr client \<Rightarrow>
                    (case ReadResource (newSync d' client) w of (err, s', w') \<Rightarrow> (err, D s', w')))"
      by (rule imported)
  next
    assume "\<exists>e k v. rd_Id d = ''managementEndpoint/'' @ e @ ''/keys/'' @ k @ ''/keyVersions/'' @ v
            \<and> newline \<notin> set e \<and> newline \<notin> set k \<and> newline \<notin> set v"
    from import_submatch_some [OF this] obtain e k v
      where "rd_Id d = ''managementEndpoint/'' @ e @ ''/keys/'' @ k @ ''/keyVersions/'' @ v"
        and "FindStringSubmatch importPattern (rd_Id d) = [rd_Id d, e, k, v]"
      by blast
    then show "\<exists>e k v. rd_Id d = ''managementEndpoint/'' @ e @ ''/keys/'' @ k @ ''/keyVersions/'' @ v
            \<and> readKmsKeyVersion clientFor ReadResource d w =
            (let d' = \<lparr>rd_Id = getKeyVersionCompositeId k v,
                       rd_fields = (rd_fields d)(''management_endpoint'' \<mapsto> e, ''key_id'' \<mapsto> k,
                                                 ''key_version_id'' \<mapsto> v)\<rparr>
             in case clientFor e of
                  Inl err \<Rightarrow> (Some err, d', w)
                | Inr client \<Rightarrow>
                    (case ReadResource (newSync d' client) w of (err, s', w') \<Rightarrow> (err, D s', w')))"
      using imported by blast
  next
    assume "\<not> (\<exists>e k v. rd_Id d = ''managementEndpoint/'' @ e @ ''/keys/'' @ k @ ''/keyVersions/'' @ v
            \<and> newline \<notin> set e \<and> newline \<notin> set k \<and> newline \<notin> set v)"
    then have "FindStringSubmatch importPattern (rd_Id d) = []"
      by (rule import_submatch_none)
    then show "readKmsKeyVersion clientFor ReadResource d w = (Some (ImportFormat (rd_Id d)), d, w)"
      by (rule rejected)
  qed
qed

lemma composite_example_k1_v1: "getKeyVersionCompositeId ''k1'' ''v1'' = ''keys/k1/keyVersions/v1''"
  by code_simp

theorem import_parsing_witness:
  "readKmsKeyVersion (\<lambda>e. Inr \<lparr>Host = e\<rparr>) (\<lambda>s w. (None, s, w))
       \<lparr>rd_Id = ''managementEndpoint/ep1/keys/k1/keyVersions/v1'', rd_fields = Map.empty\<rparr>
       \<lparr>received = ([] :: nat RemoteCall list), logged = [],
         answerGet = (\<lambda>c r. Inl (ServiceError ''down'')), answerScheduleDeletion = (\<lambda>c r. None)\<rparr>
     = (None,
        \<lparr>rd_Id = ''keys/k1/keyVersions/v1'',
          rd_fields = [''management_endpoint'' \<mapsto> ''ep1'', ''key_id'' \<mapsto> ''k1'',
                       ''key_version_id'' \<mapsto> ''v1'']\<rparr>,
        \<lparr>received = [], logged = [],
          answerGet = (\<lambda>c r. Inl (ServiceError ''down'')), answerScheduleDeletion = (\<lambda>c r. None)\<rparr>)
   \<and> readKmsKeyVersion (\<lambda>e. Inr \<lparr>Host = e\<rparr>) (\<lambda>s w. (None, s, w))
       \<lparr>rd_Id = ''garbage'', rd_fields = Map.empty\<rparr>
       \<lparr>received = ([] :: nat RemoteCall list), logged = [],
         answerGet = (\<lambda>c r. Inl (ServiceError ''down'')), answerScheduleDeletion = (\<lambda>c r. None)\<rparr>
     = (Some (ImportFormat ''garbage''),
        \<lparr>rd_Id = ''garbage'', rd_fields = Map.empty\<rparr>,
        \<lparr>received = [], logged = [],
          answerGet = (\<lambda>c r. Inl (ServiceError ''down'')), answerScheduleDeletion = (\<lambda>c r. None)\<rparr>)"
proof -
  let ?w = "\<lparr>received = ([] :: nat RemoteCall list), logged = [],
         answerGet = (\<lambda>c r. Inl (ServiceError ''down'')), answerScheduleDeletion = (\<lambda>c r. None)\<rparr>"
  let ?d1 = "\<lparr>rd_Id = ''managementEndpoint/ep1/keys/k1/keyVersions/v1'', rd_fields = Map.empty\<rparr>"
  let ?d2 = "\<lparr>rd_Id = ''garbage'', rd_fields = Map.empty\<rparr>"
  have unset: "GetOkExists ?d1 ''management_endpoint'' = None"
    "GetOkExists ?d2 ''management_endpoint'' = None"
    by (simp_all add: GetOkExists_def)
  have shaped: "rd_Id ?d1 = ''managementEndpoint/'' @ ''ep1'' @ ''/keys/'' @ ''k1'' @ ''/keyVersions/'' @ ''v1''
      \<and> newline \<notin> set ''ep1'' \<and> newline \<notin> set ''k1'' \<and> newline \<notin> set ''v1''
      \<and> CHR ''/'' \<notin> set ''k1'' \<and> CHR ''/'' \<notin> set ''v1''"
    by (simp add: newline_def)
  have unshaped: "\<not> (\<exists>e k v. rd_Id ?d2 = ''managementEndpoint/'' @ e @ ''/keys/'' @ k @ ''/keyVersions/'' @ v
      \<and> newline \<notin> set e \<and> newline \<notin> set k \<and> newline \<notin> set v)"
    by simp
  note ok = import_parsing [OF unset(1), THEN conjunct1, rule_format, OF shaped,
      where clientFor = "\<lambda>e. Inr \<lparr>Host = e\<rparr>" and ReadResource = "\<lambda>s w. (None, s, w)" and w = ?w]
  note bad = import_parsing [OF unset(2), THEN conjunct2, THEN conjunct2, rule_format, OF unshaped,
      where clientFor = "\<lambda>e. Inr \<lparr>Host = e\<rparr>" and ReadResource = "\<lambda>s w. (None, s, w)" and w = ?w]
  show ?thesis
    by (simp only: ok bad) (simp add: newSync_def composite_example_k1_v1)
qed

lemma import_rejects_newline_example:
  "FindStringSubmatch importPattern (''managementEndpoint/e/keys/k/keyVersions/v'' @ [newline]) = []"
  by code_simp

text \<open>
  Claim C5, as stated, fails: an identifier of the shape whose version ends in a newline
  is not imported. The \<^verbatim>\<open>.\<close> of the pattern does not match the newline, so there is no
  match, the format error is returned and no field is set.
\<close>

theorem import_rejects_trailing_newline:
  "''managementEndpoint/e/keys/k/keyVersions/v'' @ [newline]
     = ''managementEndpoint/'' @ ''e'' @ ''/keys/'' @ ''k'' @ ''/keyVersions/'' @ (''v'' @ [newline])
   \<and> readKmsKeyVersion (\<lambda>e. Inr \<lparr>Host = e\<rparr>) (\<lambda>s w. (None, s, w))
       \<lparr>rd_Id = ''managementEndpoint/e/keys/k/keyVersions/v'' @ [newline], rd_fields = Map.empty\<rparr>
       \<lparr>received = ([] :: nat RemoteCall list), logged = [],
         answerGet = (\<lambda>c r. Inl (ServiceError ''down'')), answerScheduleDeletion = (\<lambda>c r. None)\<rparr>
     = (Some (ImportFormat (''managementEndpoint/e/keys/k/keyVersions/v'' @ [newline])),
        \<lparr>rd_Id = ''managementEndpoint/e/keys/k/keyVersions/v'' @ [newline], rd_fields = Map.empty\<rparr>,
        \<lparr>received = [], logged = [],
          answerGet = (\<lambda>c r. Inl (ServiceError ''down'')), answerScheduleDeletion = (\<lambda>c r. None)\<rparr>)"
proof -
  have "GetOkExists \<lparr>rd_Id = ''managementEndpoint/e/keys/k/keyVersions/v'' @ [newline],
      rd_fields = Map.empty\<rparr> ''management_endpoint'' = None"
    by (simp add: GetOkExists_def)
  then show ?thesis
    unfolding readKmsKeyVersion_def Let_def
    by (simp add: import_rejects_newline_example del: append.simps)
qed

end
